theory Spec2Isabelle
  imports
    Complex_Main
    "HOL-Library.Char_ord"
    "HOL-Library.List_Lexorder"
    "HOL-Library.Product_Lexorder"
begin

section \<open>Python values, exceptions and dictionaries\<close>

text \<open>
  The three scripts handle text, integers, floating-point numbers and \<open>None\<close>.
  A Python \<open>str\<close> is modelled as a \<open>string\<close> (one \<open>char\<close> per character, so the
  model covers text whose characters lie in the first 256 code points), an \<open>int\<close> as an
  unbounded \<open>int\<close>, and a finite \<open>float\<close> as the rational number it denotes. The
  infinities, NaN and the negative zero have no counterpart: an operation that would
  produce one of them answers \<open>NotModelled\<close>.
\<close>

datatype pyval = PNone | PStr string | PInt int | PFloat rat

datatype error =
    KeyError
  | IndexError
  | TypeError
  | ValueError
  | OverflowError
  | FileNotFoundError string
  | IntegrityError
  | OperationalError
  | CsvError
  | NotModelled

text \<open>An exception aborts the rest of the computation.\<close>

definition and_then :: "error + 'a \<Rightarrow> ('a \<Rightarrow> error + 'b) \<Rightarrow> error + 'b" where
  "and_then m f = (case m of Inl e \<Rightarrow> Inl e | Inr x \<Rightarrow> f x)"

text \<open>
  A \<open>dict\<close> keeps its keys in insertion order; storing under a key that is present
  replaces the value in place. Rows are dictionaries from column names to values.
\<close>

type_synonym row = "(string \<times> pyval) list"

fun dict_set :: "('k \<times> 'v) list \<Rightarrow> 'k \<Rightarrow> 'v \<Rightarrow> ('k \<times> 'v) list" where
  "dict_set [] k v = [(k, v)]"
| "dict_set ((k', v') # d) k v = (if k' = k then (k, v) # d else (k', v') # dict_set d k v)"

text \<open>\<open>row[key]\<close>: a missing key raises \<open>KeyError\<close>.\<close>

definition getitem :: "('k \<times> 'v) list \<Rightarrow> 'k \<Rightarrow> error + 'v" where
  "getitem d k = (case map_of d k of None \<Rightarrow> Inl KeyError | Some v \<Rightarrow> Inr v)"

text \<open>\<open>xs[idx]\<close> for a non-negative index: out of range raises \<open>IndexError\<close>.\<close>

definition index :: "'a list \<Rightarrow> nat \<Rightarrow> error + 'a" where
  "index xs i = (if i < length xs then Inr (xs ! i) else Inl IndexError)"

section \<open>Text formatting\<close>

definition digit_char :: "int \<Rightarrow> char" where
  "digit_char d = ''0123456789'' ! nat (d mod 10)"

text \<open>The decimal digits of a non-negative integer.\<close>

function digits :: "int \<Rightarrow> string" where
  "digits n = (if n < 10 then [digit_char n] else digits (n div 10) @ [digit_char (n mod 10)])"
  by pat_completeness auto
termination
  by (relation "measure nat") auto

declare digits.simps [simp del]

text \<open>\<open>str(i)\<close> for an \<open>int\<close>.\<close>

definition str_int :: "int \<Rightarrow> string" where
  "str_int i = (if i < 0 then CHR ''-'' # digits (- i) else digits i)"

definition zfill :: "nat \<Rightarrow> string \<Rightarrow> string" where
  "zfill w s = replicate (w - length s) CHR ''0'' @ s"

text \<open>The format specification \<open>0wd\<close> of an f-string: the sign counts towards the width.\<close>

definition format_0d :: "nat \<Rightarrow> int \<Rightarrow> string" where
  "format_0d w i =
     (if i < 0 then CHR ''-'' # zfill (w - 1) (digits (- i)) else zfill w (digits i))"

text \<open>\<open>str.lower\<close> on the letters A to Z, and \<open>str.replace\<close> of one character by another.\<close>

definition lower_char :: "char \<Rightarrow> char" where
  "lower_char c =
     (case map_of (zip ''ABCDEFGHIJKLMNOPQRSTUVWXYZ'' ''abcdefghijklmnopqrstuvwxyz'') c of
        None \<Rightarrow> c
      | Some l \<Rightarrow> l)"

definition lower :: "string \<Rightarrow> string" where
  "lower s = map lower_char s"

definition replace_char :: "char \<Rightarrow> char \<Rightarrow> string \<Rightarrow> string" where
  "replace_char old new s = map (\<lambda>c. if c = old then new else c) s"

section \<open>Calendar dates\<close>

text \<open>
  \<open>datetime(y, m, d) + timedelta(days=k)\<close> followed by \<open>.date().isoformat()\<close>, in the
  proleptic Gregorian calendar of the \<open>datetime\<close> module.
\<close>

record date =
  year :: nat
  month :: nat
  day :: nat

definition is_leap :: "nat \<Rightarrow> bool" where
  "is_leap y = (y mod 4 = 0 \<and> (y mod 100 \<noteq> 0 \<or> y mod 400 = 0))"

definition days_in_month :: "nat \<Rightarrow> nat \<Rightarrow> nat" where
  "days_in_month y m =
     (if m = 2 then (if is_leap y then 29 else 28)
      else if m = 4 \<or> m = 6 \<or> m = 9 \<or> m = 11 then 30 else 31)"

definition next_day :: "date \<Rightarrow> date" where
  "next_day dt =
     (if day dt < days_in_month (year dt) (month dt) then dt\<lparr>day := day dt + 1\<rparr>
      else if month dt < 12 then dt\<lparr>month := month dt + 1, day := 1\<rparr>
      else \<lparr>year = year dt + 1, month = 1, day = 1\<rparr>)"

fun add_days :: "date \<Rightarrow> nat \<Rightarrow> date" where
  "add_days dt 0 = dt"
| "add_days dt (Suc k) = add_days (next_day dt) k"

definition isoformat :: "date \<Rightarrow> string" where
  "isoformat dt =
     zfill 4 (digits (int (year dt))) @ ''-'' @ zfill 2 (digits (int (month dt))) @ ''-''
       @ zfill 2 (digits (int (day dt)))"

section \<open>Floating-point numbers\<close>

text \<open>
  A finite double is the rational it denotes. Every operation computes the exact rational
  result and rounds it to the nearest double, ties to the even significand, as IEEE 754
  binary64 arithmetic does. Results beyond the largest double (Python: an infinity) and
  negative results that round to zero (Python: \<open>-0.0\<close>) answer \<open>NotModelled\<close>.
\<close>

definition round_half_even :: "rat \<Rightarrow> int" where
  "round_half_even x =
     (let f = \<lfloor>x\<rfloor>; d = x - of_int f
      in if d < 1 / 2 then f else if 1 / 2 < d then f + 1 else if even f then f else f + 1)"

definition pow2 :: "int \<Rightarrow> rat" where
  "pow2 e = (if 0 \<le> e then 2 ^ nat e else 1 / 2 ^ nat (- e))"

text \<open>The integer \<open>k\<close> with \<open>2 ^ k \<le> x < 2 ^ (k + 1)\<close>, for a positive \<open>x\<close>.\<close>

function floor_log2 :: "rat \<Rightarrow> int" where
  "floor_log2 x =
     (if x \<le> 0 then 0
      else if 2 \<le> x then floor_log2 (x / 2) + 1
      else if x < 1 then floor_log2 (x * 2) - 1
      else 0)"
  by pat_completeness auto
termination
proof (relation "measure (\<lambda>x. if 1 \<le> x then nat \<lfloor>x\<rfloor> else 1 + nat \<lceil>1 / x\<rceil>)")
  show "wf (measure (\<lambda>x::rat. if 1 \<le> x then nat \<lfloor>x\<rfloor> else 1 + nat \<lceil>1 / x\<rceil>))"
    by simp
next
  fix x :: rat
  assume "\<not> x \<le> 0" "2 \<le> x"
  then have "\<lfloor>x / 2\<rfloor> < \<lfloor>x\<rfloor>" "0 < \<lfloor>x\<rfloor>"
    by linarith+
  with \<open>2 \<le> x\<close> show "(x / 2, x) \<in> measure (\<lambda>x. if 1 \<le> x then nat \<lfloor>x\<rfloor> else 1 + nat \<lceil>1 / x\<rceil>)"
    by simp
next
  fix x :: rat
  assume pos: "\<not> x \<le> 0" and "\<not> 2 \<le> x" and small: "x < 1"
  from pos small have big: "1 < 1 / x"
    by (simp add: field_simps)
  show "(x * 2, x) \<in> measure (\<lambda>x. if 1 \<le> x then nat \<lfloor>x\<rfloor> else 1 + nat \<lceil>1 / x\<rceil>)"
  proof (cases "1 \<le> x * 2")
    case True
    with small have "\<lfloor>x * 2\<rfloor> = 1"
      by linarith
    moreover from big have "2 \<le> \<lceil>1 / x\<rceil>"
      by linarith
    ultimately show ?thesis
      using True small by simp
  next
    case False
    with pos have "2 < 1 / x"
      by (simp add: field_simps)
    moreover have "1 / (x * 2) = (1 / x) / 2"
      by simp
    ultimately have "\<lceil>1 / (x * 2)\<rceil> < \<lceil>1 / x\<rceil>"
      by linarith
    moreover from big have "0 < \<lceil>1 / x\<rceil>"
      by linarith
    ultimately show ?thesis
      using False small by simp
  qed
qed

declare floor_log2.simps [simp del]

text \<open>
  The double nearest to a non-negative rational: 53 significant bits, the exponent of the
  last bit no smaller than -1074 (the subnormal numbers).
\<close>

definition nearest_double :: "rat \<Rightarrow> rat" where
  "nearest_double a =
     (if a = 0 then 0
      else let e = max (floor_log2 a - 52) (- 1074)
           in of_int (round_half_even (a / pow2 e)) * pow2 e)"

text \<open>
  The double for a sign and a magnitude. A magnitude that rounds beyond the largest
  double is an infinity in Python, and a negative sign on a zero is \<open>-0.0\<close>.
\<close>

definition signed_double :: "bool \<Rightarrow> rat \<Rightarrow> error + rat" where
  "signed_double neg a =
     (let y = nearest_double a
      in if pow2 1024 \<le> y then Inl NotModelled
         else if neg \<and> y = 0 then Inl NotModelled
         else Inr (if neg then - y else y))"

definition float_round :: "rat \<Rightarrow> error + rat" where
  "float_round x = signed_double (x < 0) \<bar>x\<bar>"

text \<open>A floating-point literal of the source text, such as \<open>149.99\<close>.\<close>

definition float_literal :: "rat \<Rightarrow> rat" where
  "float_literal x = (if x < 0 then - nearest_double (- x) else nearest_double x)"

text \<open>
  \<open>int * float\<close>: the integer is converted to a double first (\<open>OverflowError\<close> when it
  is too large), then the product is rounded. A zero product with a negative factor
  is the negative zero.
\<close>

definition float_of_int :: "int \<Rightarrow> error + rat" where
  "float_of_int i =
     (let y = nearest_double \<bar>of_int i\<bar>
      in if pow2 1024 \<le> y then Inl OverflowError else Inr (if i < 0 then - y else y))"

definition float_mul :: "rat \<Rightarrow> rat \<Rightarrow> error + rat" where
  "float_mul a b =
     (if a * b = 0 \<and> (a < 0 \<or> b < 0) then Inl NotModelled else float_round (a * b))"

definition mul_int_float :: "int \<Rightarrow> rat \<Rightarrow> error + rat" where
  "mul_int_float i x = and_then (float_of_int i) (\<lambda>a. float_mul a x)"

text \<open>
  The format specification \<open>.2f\<close>: the exact value of the double, rounded to two
  decimal places, ties to even.
\<close>

definition cents_text :: "int \<Rightarrow> string" where
  "cents_text c = digits (c div 100) @ ''.'' @ zfill 2 (digits (c mod 100))"

definition format_2f :: "rat \<Rightarrow> string" where
  "format_2f x =
     (let body = cents_text (round_half_even (\<bar>x\<bar> * 100))
      in if x < 0 then CHR ''-'' # body else body)"

text \<open>
  \<open>int(text)\<close> and \<open>float(text)\<close>. Over the characters \<open>0\<close> to \<open>9\<close>, \<open>.\<close>, \<open>+\<close>
  and \<open>-\<close> the grammar of Python is followed in full: an optional sign, then digits,
  for \<open>float\<close> with an optional decimal point; anything else over these characters
  raises \<open>ValueError\<close>. A text with any other character (white space, underscores,
  exponents, \<open>inf\<close>, \<open>nan\<close>) answers \<open>NotModelled\<close>, and so does an integer numeral of
  more than 4300 digits, which recent interpreters refuse.
\<close>

definition is_digit :: "char \<Rightarrow> bool" where
  "is_digit c = (c \<in> set ''0123456789'')"

definition digit_val :: "char \<Rightarrow> int" where
  "digit_val c =
     (case map_of (zip ''0123456789'' [0, 1, 2, 3, 4, 5, 6, 7, 8, 9]) c of
        None \<Rightarrow> 0
      | Some d \<Rightarrow> d)"

definition int_of_digits :: "string \<Rightarrow> int" where
  "int_of_digits s = foldl (\<lambda>n c. 10 * n + digit_val c) 0 s"

definition plain_numeral_chars :: "string \<Rightarrow> bool" where
  "plain_numeral_chars s =
     list_all (\<lambda>c. is_digit c \<or> c = CHR ''.'' \<or> c = CHR ''+'' \<or> c = CHR ''-'') s"

fun strip_sign :: "string \<Rightarrow> bool \<times> string" where
  "strip_sign [] = (False, [])"
| "strip_sign (c # r) =
     (if c = CHR ''-'' then (True, r) else if c = CHR ''+'' then (False, r) else (False, c # r))"

definition int_of_text :: "string \<Rightarrow> error + int" where
  "int_of_text s =
     (if \<not> plain_numeral_chars s then Inl NotModelled
      else let (neg, ds) = strip_sign s
           in if ds = [] \<or> \<not> list_all is_digit ds then Inl ValueError
              else if 4300 < length ds then Inl NotModelled
              else Inr (if neg then - int_of_digits ds else int_of_digits ds))"

definition float_of_text :: "string \<Rightarrow> error + rat" where
  "float_of_text s =
     (if \<not> plain_numeral_chars s then Inl NotModelled
      else let (neg, body) = strip_sign s;
               ip = takeWhile is_digit body;
               rest = dropWhile is_digit body
           in case rest of
                [] \<Rightarrow> if ip = [] then Inl ValueError
                      else signed_double neg (of_int (int_of_digits ip))
              | c # fp \<Rightarrow>
                  if c = CHR ''.'' \<and> list_all is_digit fp \<and> (ip \<noteq> [] \<or> fp \<noteq> [])
                  then signed_double neg (of_int (int_of_digits (ip @ fp)) / 10 ^ length fp)
                  else Inl ValueError)"

text \<open>The built-in \<open>float\<close> applied to a value.\<close>

fun py_float :: "pyval \<Rightarrow> error + rat" where
  "py_float PNone = Inl TypeError"
| "py_float (PStr s) = float_of_text s"
| "py_float (PInt i) = float_of_int i"
| "py_float (PFloat x) = Inr x"

text \<open>The built-in \<open>int\<close> applied to a value; a float is truncated towards zero.\<close>

fun py_int :: "pyval \<Rightarrow> error + int" where
  "py_int PNone = Inl TypeError"
| "py_int (PStr s) = int_of_text s"
| "py_int (PInt i) = Inr i"
| "py_int (PFloat x) = Inr (if x < 0 then - \<lfloor>- x\<rfloor> else \<lfloor>x\<rfloor>)"

text \<open>
  Equality of values as dictionary keys: an \<open>int\<close> and a \<open>float\<close> are equal when they
  denote the same number; text equals only text.
\<close>

fun py_eq :: "pyval \<Rightarrow> pyval \<Rightarrow> bool" where
  "py_eq (PInt i) (PFloat x) = (of_int i = x)"
| "py_eq (PFloat x) (PInt i) = (of_int i = x)"
| "py_eq a b = (a = b)"

fun py_dict_set :: "(pyval \<times> 'v) list \<Rightarrow> pyval \<Rightarrow> 'v \<Rightarrow> (pyval \<times> 'v) list" where
  "py_dict_set [] k v = [(k, v)]"
| "py_dict_set ((k', v') # d) k v =
     (if py_eq k' k then (k', v) # d else (k', v') # py_dict_set d k v)"

fun py_dict_get :: "(pyval \<times> 'v) list \<Rightarrow> pyval \<Rightarrow> error + 'v" where
  "py_dict_get [] k = Inl KeyError"
| "py_dict_get ((k', v') # d) k = (if py_eq k' k then Inr v' else py_dict_get d k)"

section \<open>The pseudo-random generator\<close>

text \<open>
  \<open>random.Random(seed)\<close> and its method \<open>randint(a, b)\<close> belong to the standard
  library. They are parameters of the model: \<open>Random\<close> builds the generator state from
  a seed, and \<open>randint\<close> returns a number together with the next state. The library
  promises \<open>a \<le> randint(a, b) \<le> b\<close>.
\<close>

record 'g prng =
  Random :: "int \<Rightarrow> 'g"
  randint :: "'g \<Rightarrow> int \<Rightarrow> int \<Rightarrow> int \<times> 'g"

definition randint_in_range :: "'g prng \<Rightarrow> bool" where
  "randint_in_range R =
     (\<forall>g a b. a \<le> b \<longrightarrow> a \<le> fst (randint R g a b) \<and> fst (randint R g a b) \<le> b)"

section \<open>The data generator (generate_ecommerce_data.py)\<close>

definition names :: "string list" where
  "names =
     [''Ava Patel'', ''Noah Smith'', ''Liam Chen'', ''Emma Lopez'', ''Mia Davis'',
      ''Elijah Lee'', ''Isabella Brown'', ''Sophia Wilson'', ''James Garcia'',
      ''Lucas Nguyen'', ''Amelia Clark'', ''Harper Miller'', ''Ethan Hernandez'',
      ''Oliver Johnson'', ''Charlotte Martinez'']"

definition tiers :: "string list" where
  "tiers = [''Bronze'', ''Silver'', ''Gold'']"

definition generate_user :: "nat \<Rightarrow> row" where
  "generate_user idx =
     (let name = names ! idx;
          user_id = ''U'' @ format_0d 3 (int idx + 1);
          email = replace_char CHR '' '' CHR ''.'' (lower name) @ ''@shopperhub.com'';
          join_date = isoformat (add_days \<lparr>year = 2024, month = 1, day = 1\<rparr> (idx * 3));
          tier = tiers ! (idx mod length tiers)
      in [(''user_id'', PStr user_id), (''name'', PStr name), (''email'', PStr email),
          (''join_date'', PStr join_date), (''loyalty_tier'', PStr tier)])"

definition generate_users :: "row list" where
  "generate_users = map generate_user [0..<15]"

definition categories :: "(string \<times> string \<times> rat) list" where
  "categories =
     [(''Smartwatch'', ''Wearables'', float_literal (14999 / 100)),
      (''Noise Cancelling Headphones'', ''Audio'', float_literal (1995 / 10)),
      (''4K Monitor'', ''Displays'', float_literal 329),
      (''Mechanical Keyboard'', ''Peripherals'', float_literal 119),
      (''Gaming Mouse'', ''Peripherals'', float_literal 59),
      (''Wireless Charger'', ''Accessories'', float_literal (3999 / 100)),
      (''Portable SSD'', ''Storage'', float_literal (1095 / 10)),
      (''Bluetooth Speaker'', ''Audio'', float_literal 89),
      (''Fitness Tracker'', ''Wearables'', float_literal 99),
      (''Smart Home Hub'', ''Smart Home'', float_literal 129),
      (''Action Camera'', ''Cameras'', float_literal 249),
      (''Drone Mini'', ''Cameras'', float_literal 399),
      (''E-reader'', ''Tablets'', float_literal 139),
      (''USB-C Hub'', ''Accessories'', float_literal (495 / 10)),
      (''Noise Sensor'', ''Smart Home'', float_literal 79)]"

definition generate_product :: "nat \<times> string \<times> string \<times> rat \<Rightarrow> row" where
  "generate_product = (\<lambda>(idx, name, category, price).
     [(''product_id'', PStr (''P'' @ format_0d 3 (int idx))), (''name'', PStr name),
      (''category'', PStr category), (''price'', PStr (format_2f price)),
      (''in_stock'', PInt (50 + int idx * 3))])"

definition generate_products :: "row list" where
  "generate_products = map generate_product (enumerate 1 categories)"

definition order_statuses :: "string list" where
  "order_statuses = [''Processing'', ''Shipped'', ''Delivered'']"

text \<open>The dictionary comprehension that maps each product id to its price as a float.\<close>

fun price_lookup_of :: "row list \<Rightarrow> (pyval \<times> rat) list \<Rightarrow> error + (pyval \<times> rat) list" where
  "price_lookup_of [] d = Inr d"
| "price_lookup_of (p # ps) d =
     and_then (getitem p ''product_id'') (\<lambda>k.
     and_then (getitem p ''price'') (\<lambda>v.
     and_then (py_float v) (\<lambda>x.
     price_lookup_of ps (py_dict_set d k x))))"

text \<open>
  The loop of \<open>generate_orders\<close> over \<open>range(15)\<close>, with the generator state threaded
  through; the orders are returned in the order in which they are appended.
\<close>

fun orders_loop ::
  "'g prng \<Rightarrow> row list \<Rightarrow> row list \<Rightarrow> (pyval \<times> rat) list \<Rightarrow> nat list \<Rightarrow> 'g \<Rightarrow> error + row list"
where
  "orders_loop R users products price_lookup [] rng = Inr []"
| "orders_loop R users products price_lookup (idx # idxs) rng =
     and_then (index users idx) (\<lambda>user.
     and_then (index products idx) (\<lambda>product.
     let (quantity, rng') = randint R rng 1 4;
         order_date = isoformat (add_days \<lparr>year = 2024, month = 2, day = 1\<rparr> idx);
         status = order_statuses ! (idx mod length order_statuses)
     in and_then (getitem user ''user_id'') (\<lambda>user_id.
        and_then (getitem product ''product_id'') (\<lambda>product_id.
        and_then (py_dict_get price_lookup product_id) (\<lambda>price.
        and_then (mul_int_float quantity price) (\<lambda>total.
        and_then (orders_loop R users products price_lookup idxs rng') (\<lambda>orders.
        Inr ([(''order_id'', PStr (''O'' @ format_0d 3 (int idx + 1))),
              (''user_id'', user_id),
              (''product_id'', product_id),
              (''quantity'', PInt quantity),
              (''order_date'', PStr order_date),
              (''status'', PStr status),
              (''order_total'', PStr (format_2f total))] # orders))))))))"

definition generate_orders :: "'g prng \<Rightarrow> row list \<Rightarrow> row list \<Rightarrow> error + row list" where
  "generate_orders R users products =
     and_then (price_lookup_of products []) (\<lambda>price_lookup.
     orders_loop R users products price_lookup [0..<15] (Random R 42))"

definition comments :: "string list" where
  "comments =
     [''Great value for the price.'', ''Fast shipping and solid quality.'',
      ''Met my expectations.'', ''Would definitely recommend.'',
      ''Packaging could be better, product works fine.'']"

fun reviews_loop :: "'g prng \<Rightarrow> (nat \<times> row) list \<Rightarrow> 'g \<Rightarrow> error + row list" where
  "reviews_loop R [] rng = Inr []"
| "reviews_loop R ((idx, order) # rest) rng =
     and_then (getitem order ''order_id'') (\<lambda>order_id.
     let (rating, rng') = randint R rng 3 5
     in and_then (reviews_loop R rest rng') (\<lambda>reviews.
        Inr ([(''review_id'', PStr (''R'' @ format_0d 3 (int idx + 1))),
              (''order_id'', order_id),
              (''rating'', PInt rating),
              (''comment'', PStr (comments ! (idx mod length comments))),
              (''review_date'',
                 PStr (isoformat (add_days \<lparr>year = 2024, month = 3, day = 1\<rparr> idx)))]
             # reviews)))"

definition generate_reviews :: "'g prng \<Rightarrow> row list \<Rightarrow> error + row list" where
  "generate_reviews R orders = reviews_loop R (enumerate 0 orders) (Random R 7)"

definition methods :: "string list" where
  "methods = [''Credit Card'', ''PayPal'', ''Gift Card'']"

definition payment_statuses :: "string list" where
  "payment_statuses = [''Completed'', ''Completed'', ''Pending'']"

fun payments_loop :: "(nat \<times> row) list \<Rightarrow> error + row list" where
  "payments_loop [] = Inr []"
| "payments_loop ((idx, order) # rest) =
     and_then (getitem order ''order_id'') (\<lambda>order_id.
     and_then (getitem order ''order_total'') (\<lambda>amount.
     and_then (payments_loop rest) (\<lambda>payments.
     Inr ([(''payment_id'', PStr (''PM'' @ format_0d 3 (int idx + 1))),
           (''order_id'', order_id),
           (''amount'', amount),
           (''method'', PStr (methods ! (idx mod length methods))),
           (''payment_status'', PStr (payment_statuses ! (idx mod length payment_statuses)))]
          # payments))))"

definition generate_payments :: "row list \<Rightarrow> error + row list" where
  "generate_payments orders = payments_loop (enumerate 0 orders)"

subsection \<open>Writing the CSV files\<close>

text \<open>
  \<open>csv.DictWriter\<close> with the default dialect: cells separated by commas, each line
  ended by carriage return and line feed, a cell quoted only when it holds a comma, a
  double quote or a line break (or is the empty only cell of its line), double quotes
  inside doubled. \<open>None\<close> is written as the empty text and a number as \<open>str\<close> gives it;
  the text of a \<open>float\<close> (its \<open>repr\<close>) is not modelled.
\<close>

definition CR :: char where
  "CR = CHR 0x0D"

definition LF :: char where
  "LF = CHR 0x0A"

definition DQUOTE :: char where
  "DQUOTE = CHR 0x22"

definition needs_quotes :: "string \<Rightarrow> bool" where
  "needs_quotes s = list_ex (\<lambda>c. c = CHR '','' \<or> c = DQUOTE \<or> c = CR \<or> c = LF) s"

definition quote_field :: "string \<Rightarrow> string" where
  "quote_field s = DQUOTE # concat (map (\<lambda>c. if c = DQUOTE then [c, c] else [c]) s) @ [DQUOTE]"

definition csv_field :: "nat \<Rightarrow> string \<Rightarrow> string" where
  "csv_field n s = (if needs_quotes s \<or> (s = [] \<and> n = 1) then quote_field s else s)"

fun cell_text :: "pyval \<Rightarrow> error + string" where
  "cell_text PNone = Inr []"
| "cell_text (PStr s) = Inr s"
| "cell_text (PInt i) = Inr (str_int i)"
| "cell_text (PFloat x) = Inl NotModelled"

fun join :: "string \<Rightarrow> string list \<Rightarrow> string" where
  "join sep [] = []"
| "join sep [x] = x"
| "join sep (x # y # zs) = x @ sep @ join sep (y # zs)"

text \<open>Applying a fallible function to each element in turn, stopping at the first exception.\<close>

fun traverse :: "('a \<Rightarrow> error + 'b) \<Rightarrow> 'a list \<Rightarrow> error + 'b list" where
  "traverse f [] = Inr []"
| "traverse f (x # xs) =
     and_then (f x) (\<lambda>y. and_then (traverse f xs) (\<lambda>ys. Inr (y # ys)))"

definition writerow :: "pyval list \<Rightarrow> error + string" where
  "writerow vs =
     and_then (traverse cell_text vs) (\<lambda>cells.
     Inr (join '','' (map (csv_field (length cells)) cells) @ [CR, LF]))"

text \<open>
  A row with a key outside the field names raises \<open>ValueError\<close>; a field name missing
  from the row is written as the empty text.
\<close>

definition dict_to_list :: "string list \<Rightarrow> row \<Rightarrow> error + pyval list" where
  "dict_to_list fieldnames rowdict =
     (if list_ex (\<lambda>k. k \<notin> set fieldnames) (map fst rowdict) then Inl ValueError
      else Inr (map (\<lambda>key. case map_of rowdict key of None \<Rightarrow> PStr [] | Some v \<Rightarrow> v)
                  fieldnames))"

definition csv_text :: "string list \<Rightarrow> row list \<Rightarrow> error + string" where
  "csv_text fieldnames rows =
     and_then (writerow (map PStr fieldnames)) (\<lambda>header.
     and_then (traverse (\<lambda>r. and_then (dict_to_list fieldnames r) writerow) rows) (\<lambda>lines.
     Inr (header @ concat lines)))"

text \<open>
  The data directory is a map from file names to file contents. Opening a file for
  writing replaces what was there. What an exception in the middle of the writing leaves
  in the file is not tracked.
\<close>

type_synonym files = "string \<rightharpoonup> string"

definition write_csv :: "string \<Rightarrow> string list \<Rightarrow> row list \<Rightarrow> files \<Rightarrow> error + files" where
  "write_csv filename fieldnames rows fs =
     and_then (csv_text fieldnames rows) (\<lambda>text. Inr (fs(filename \<mapsto> text)))"

text \<open>
  The script creates the data directory when it is missing (\<open>None\<close>), keeping the files
  of an existing one, and then runs \<open>main\<close>.
\<close>

definition generator_main :: "'g prng \<Rightarrow> files option \<Rightarrow> error + files" where
  "generator_main R data_dir =
     (let fs = (case data_dir of None \<Rightarrow> Map.empty | Some fs \<Rightarrow> fs);
          users = generate_users;
          products = generate_products
      in and_then (generate_orders R users products) (\<lambda>orders.
         and_then (generate_reviews R orders) (\<lambda>reviews.
         and_then (generate_payments orders) (\<lambda>payments.
         and_then (write_csv ''users.csv''
            [''user_id'', ''name'', ''email'', ''join_date'', ''loyalty_tier''] users fs) (\<lambda>fs.
         and_then (write_csv ''products.csv''
            [''product_id'', ''name'', ''category'', ''price'', ''in_stock''] products fs) (\<lambda>fs.
         and_then (write_csv ''orders.csv''
            [''order_id'', ''user_id'', ''product_id'', ''quantity'', ''order_date'', ''status'',
             ''order_total''] orders fs) (\<lambda>fs.
         and_then (write_csv ''reviews.csv''
            [''review_id'', ''order_id'', ''rating'', ''comment'', ''review_date''] reviews fs) (\<lambda>fs.
         write_csv ''payments.csv''
            [''payment_id'', ''order_id'', ''amount'', ''method'', ''payment_status'']
            payments fs))))))))"

section \<open>Properties of the generator\<close>

lemma floor_rat_numeral [simp]:
  "\<lfloor>numeral a / numeral b :: rat\<rfloor> = numeral a div numeral b"
  by (metis floor_divide_of_int_eq of_int_numeral)

lemma replicate_numeral [simp]:
  "replicate (numeral k) x = x # replicate (pred_numeral k) x"
  by (simp add: numeral_eq_Suc)

lemma and_then_Inr [simp]: "and_then (Inr x) f = f x"
  by (simp add: and_then_def)

lemma and_then_Inl [simp]: "and_then (Inl e) f = Inl e"
  by (simp add: and_then_def)

lemma and_then_eq_Inr:
  "and_then m f = Inr y \<longleftrightarrow> (\<exists>x. m = Inr x \<and> f x = Inr y)"
  by (cases m) simp_all

text \<open>The recursive functions are unfolded on numerals only.\<close>

lemma digits_eval:
  "digits 0 = ''0''"
  "digits 1 = ''1''"
  "digits (numeral k) =
     (if (numeral k :: int) < 10 then [digit_char (numeral k)]
      else digits (numeral k div 10) @ [digit_char (numeral k mod 10)])"
  by (simp_all add: digits.simps [of 0] digits.simps [of 1] digits.simps [of "numeral k"]
      digit_char_def)

lemma floor_log2_eval:
  "floor_log2 1 = 0"
  "floor_log2 (numeral a) =
     (if (2::rat) \<le> numeral a then floor_log2 (numeral a / 2) + 1 else 0)"
  "floor_log2 (numeral a / numeral b) =
     (if (numeral a / numeral b :: rat) \<le> 0 then 0
      else if (2::rat) \<le> numeral a / numeral b then floor_log2 (numeral a / numeral b / 2) + 1
      else if (numeral a / numeral b :: rat) < 1 then floor_log2 (numeral a / numeral b * 2) - 1
      else 0)"
  by (simp_all add: floor_log2.simps [of 1] floor_log2.simps [of "numeral a"]
      floor_log2.simps [of "numeral a / numeral b"])

lemma add_days_numeral:
  "add_days dt (numeral k) = add_days (next_day dt) (pred_numeral k)"
  by (simp add: numeral_eq_Suc)

lemmas text_defs =
  format_0d_def zfill_def digits_eval digit_char_def replace_char_def lower_def
  lower_char_def isoformat_def next_day_def days_in_month_def is_leap_def str_int_def
  add_days_numeral

lemmas float_defs =
  float_literal_def nearest_double_def floor_log2_eval pow2_def round_half_even_def
  Let_def float_round_def signed_double_def float_of_int_def float_mul_def
  mul_int_float_def format_2f_def cents_text_def

subsection \<open>The fixtures, evaluated\<close>

text \<open>The users and products that the generator computes from its rosters.\<close>

definition users_table :: "row list" where
  "users_table =
     [ [(''user_id'', PStr ''U001''), (''name'', PStr ''Ava Patel''),
       (''email'', PStr ''ava.patel@shopperhub.com''), (''join_date'', PStr ''2024-01-01''),
       (''loyalty_tier'', PStr ''Bronze'')],
      [(''user_id'', PStr ''U002''), (''name'', PStr ''Noah Smith''),
       (''email'', PStr ''noah.smith@shopperhub.com''), (''join_date'', PStr ''2024-01-04''),
       (''loyalty_tier'', PStr ''Silver'')],
      [(''user_id'', PStr ''U003''), (''name'', PStr ''Liam Chen''),
       (''email'', PStr ''liam.chen@shopperhub.com''), (''join_date'', PStr ''2024-01-07''),
       (''loyalty_tier'', PStr ''Gold'')],
      [(''user_id'', PStr ''U004''), (''name'', PStr ''Emma Lopez''),
       (''email'', PStr ''emma.lopez@shopperhub.com''), (''join_date'', PStr ''2024-01-10''),
       (''loyalty_tier'', PStr ''Bronze'')],
      [(''user_id'', PStr ''U005''), (''name'', PStr ''Mia Davis''),
       (''email'', PStr ''mia.davis@shopperhub.com''), (''join_date'', PStr ''2024-01-13''),
       (''loyalty_tier'', PStr ''Silver'')],
      [(''user_id'', PStr ''U006''), (''name'', PStr ''Elijah Lee''),
       (''email'', PStr ''elijah.lee@shopperhub.com''), (''join_date'', PStr ''2024-01-16''),
       (''loyalty_tier'', PStr ''Gold'')],
      [(''user_id'', PStr ''U007''), (''name'', PStr ''Isabella Brown''),
       (''email'', PStr ''isabella.brown@shopperhub.com''),
       (''join_date'', PStr ''2024-01-19''), (''loyalty_tier'', PStr ''Bronze'')],
      [(''user_id'', PStr ''U008''), (''name'', PStr ''Sophia Wilson''),
       (''email'', PStr ''sophia.wilson@shopperhub.com''),
       (''join_date'', PStr ''2024-01-22''), (''loyalty_tier'', PStr ''Silver'')],
      [(''user_id'', PStr ''U009''), (''name'', PStr ''James Garcia''),
       (''email'', PStr ''james.garcia@shopperhub.com''), (''join_date'', PStr ''2024-01-25''),
       (''loyalty_tier'', PStr ''Gold'')],
      [(''user_id'', PStr ''U010''), (''name'', PStr ''Lucas Nguyen''),
       (''email'', PStr ''lucas.nguyen@shopperhub.com''), (''join_date'', PStr ''2024-01-28''),
       (''loyalty_tier'', PStr ''Bronze'')],
      [(''user_id'', PStr ''U011''), (''name'', PStr ''Amelia Clark''),
       (''email'', PStr ''amelia.clark@shopperhub.com''), (''join_date'', PStr ''2024-01-31''),
       (''loyalty_tier'', PStr ''Silver'')],
      [(''user_id'', PStr ''U012''), (''name'', PStr ''Harper Miller''),
       (''email'', PStr ''harper.miller@shopperhub.com''),
       (''join_date'', PStr ''2024-02-03''), (''loyalty_tier'', PStr ''Gold'')],
      [(''user_id'', PStr ''U013''), (''name'', PStr ''Ethan Hernandez''),
       (''email'', PStr ''ethan.hernandez@shopperhub.com''),
       (''join_date'', PStr ''2024-02-06''), (''loyalty_tier'', PStr ''Bronze'')],
      [(''user_id'', PStr ''U014''), (''name'', PStr ''Oliver Johnson''),
       (''email'', PStr ''oliver.johnson@shopperhub.com''),
       (''join_date'', PStr ''2024-02-09''), (''loyalty_tier'', PStr ''Silver'')],
      [(''user_id'', PStr ''U015''), (''name'', PStr ''Charlotte Martinez''),
       (''email'', PStr ''charlotte.martinez@shopperhub.com''),
       (''join_date'', PStr ''2024-02-12''), (''loyalty_tier'', PStr ''Gold'')]]"

definition products_table :: "row list" where
  "products_table =
     [ [(''product_id'', PStr ''P001''), (''name'', PStr ''Smartwatch''),
       (''category'', PStr ''Wearables''), (''price'', PStr ''149.99''),
       (''in_stock'', PInt 53)],
      [(''product_id'', PStr ''P002''), (''name'', PStr ''Noise Cancelling Headphones''),
       (''category'', PStr ''Audio''), (''price'', PStr ''199.50''), (''in_stock'', PInt 56)],
      [(''product_id'', PStr ''P003''), (''name'', PStr ''4K Monitor''),
       (''category'', PStr ''Displays''), (''price'', PStr ''329.00''),
       (''in_stock'', PInt 59)],
      [(''product_id'', PStr ''P004''), (''name'', PStr ''Mechanical Keyboard''),
       (''category'', PStr ''Peripherals''), (''price'', PStr ''119.00''),
       (''in_stock'', PInt 62)],
      [(''product_id'', PStr ''P005''), (''name'', PStr ''Gaming Mouse''),
       (''category'', PStr ''Peripherals''), (''price'', PStr ''59.00''),
       (''in_stock'', PInt 65)],
      [(''product_id'', PStr ''P006''), (''name'', PStr ''Wireless Charger''),
       (''category'', PStr ''Accessories''), (''price'', PStr ''39.99''),
       (''in_stock'', PInt 68)],
      [(''product_id'', PStr ''P007''), (''name'', PStr ''Portable SSD''),
       (''category'', PStr ''Storage''), (''price'', PStr ''109.50''), (''in_stock'', PInt 71)],
      [(''product_id'', PStr ''P008''), (''name'', PStr ''Bluetooth Speaker''),
       (''category'', PStr ''Audio''), (''price'', PStr ''89.00''), (''in_stock'', PInt 74)],
      [(''product_id'', PStr ''P009''), (''name'', PStr ''Fitness Tracker''),
       (''category'', PStr ''Wearables''), (''price'', PStr ''99.00''),
       (''in_stock'', PInt 77)],
      [(''product_id'', PStr ''P010''), (''name'', PStr ''Smart Home Hub''),
       (''category'', PStr ''Smart Home''), (''price'', PStr ''129.00''),
       (''in_stock'', PInt 80)],
      [(''product_id'', PStr ''P011''), (''name'', PStr ''Action Camera''),
       (''category'', PStr ''Cameras''), (''price'', PStr ''249.00''), (''in_stock'', PInt 83)],
      [(''product_id'', PStr ''P012''), (''name'', PStr ''Drone Mini''),
       (''category'', PStr ''Cameras''), (''price'', PStr ''399.00''), (''in_stock'', PInt 86)],
      [(''product_id'', PStr ''P013''), (''name'', PStr ''E-reader''),
       (''category'', PStr ''Tablets''), (''price'', PStr ''139.00''), (''in_stock'', PInt 89)],
      [(''product_id'', PStr ''P014''), (''name'', PStr ''USB-C Hub''),
       (''category'', PStr ''Accessories''), (''price'', PStr ''49.50''),
       (''in_stock'', PInt 92)],
      [(''product_id'', PStr ''P015''), (''name'', PStr ''Noise Sensor''),
       (''category'', PStr ''Smart Home''), (''price'', PStr ''79.00''),
       (''in_stock'', PInt 95)]]"

lemma generate_users_eq: "generate_users = users_table"
  by (simp add: users_table_def generate_users_def generate_user_def names_def tiers_def
      text_defs Let_def upt_rec)

lemma generate_products_eq: "generate_products = products_table"
  by (simp add: products_table_def generate_products_def generate_product_def categories_def
      enumerate_eq_zip upt_rec text_defs float_defs)

text \<open>The price dictionary that \<open>generate_orders\<close> builds from the generated products.\<close>

definition price_table :: "(pyval \<times> rat) list" where
  "price_table =
     [(PStr ''P001'', 659662996200489 / 4398046511104), (PStr ''P002'', 399 / 2),
      (PStr ''P003'', 329), (PStr ''P004'', 119), (PStr ''P005'', 59),
      (PStr ''P006'', 5628092159329567 / 140737488355328), (PStr ''P007'', 219 / 2),
      (PStr ''P008'', 89), (PStr ''P009'', 99), (PStr ''P010'', 129), (PStr ''P011'', 249),
      (PStr ''P012'', 399), (PStr ''P013'', 139), (PStr ''P014'', 99 / 2), (PStr ''P015'', 79)]"

lemmas products_defs =
  generate_products_def generate_product_def categories_def enumerate_eq_zip upt_rec

lemmas parse_defs =
  float_of_text_def int_of_text_def plain_numeral_chars_def is_digit_def int_of_digits_def
  digit_val_def

lemma price_lookup_generated: "price_lookup_of generate_products [] = Inr price_table"
  by (simp add: generate_products_eq price_table_def products_table_def text_defs float_defs
      getitem_def parse_defs)

lemma price_table_products:
  "list_all (\<lambda>(pid, x). list_all (\<lambda>q. \<not> isl (mul_int_float q x)) [1, 2, 3, 4]) price_table"
  by (simp add: price_table_def float_defs)

lemma price_table_mul:
  assumes "(pid, x) \<in> set price_table" and "1 \<le> q" and "q \<le> 4"
  shows "\<exists>t. mul_int_float q x = Inr t"
proof -
  from assms(2,3) have "q = 1 \<or> q = 2 \<or> q = 3 \<or> q = 4"
    by arith
  then have "q \<in> set [1, 2, 3, 4]"
    by auto
  with assms(1) price_table_products have "\<not> isl (mul_int_float q x)"
    unfolding list_all_iff by blast
  then show ?thesis
    by (cases "mul_int_float q x") simp_all
qed

lemma py_eq_PStr [simp]: "py_eq (PStr s) b \<longleftrightarrow> b = PStr s"
  by (cases b) auto

lemma py_dict_get_text_keys:
  "list_all (\<lambda>(k, v). \<exists>s. k = PStr s) d \<Longrightarrow> py_dict_get d k = Inr v \<Longrightarrow> (k, v) \<in> set d"
  by (induction d) (auto split: if_splits)

lemma price_table_get:
  assumes "py_dict_get price_table pid = Inr x"
  shows "(pid, x) \<in> set price_table"
proof -
  have "list_all (\<lambda>(k, v). \<exists>s. k = PStr s) price_table"
    by (simp add: price_table_def)
  then show ?thesis
    using assms by (rule py_dict_get_text_keys)
qed

lemma price_table_ids:
  "list_all (\<lambda>idx. \<not> isl (py_dict_get price_table (PStr (''P'' @ format_0d 3 (int idx + 1)))))
     [0..<15]"
  by (simp add: upt_rec price_table_def text_defs)

subsection \<open>The loop of generate_orders\<close>

lemma orders_loop_Cons_Inr:
  "orders_loop R U P PL (idx # idxs) g = Inr os \<longleftrightarrow>
     (\<exists>user product uid pid price total rest.
        index U idx = Inr user \<and> index P idx = Inr product \<and>
        getitem user ''user_id'' = Inr uid \<and> getitem product ''product_id'' = Inr pid \<and>
        py_dict_get PL pid = Inr price \<and>
        mul_int_float (fst (randint R g 1 4)) price = Inr total \<and>
        orders_loop R U P PL idxs (snd (randint R g 1 4)) = Inr rest \<and>
        os = [(''order_id'', PStr (''O'' @ format_0d 3 (int idx + 1))),
              (''user_id'', uid),
              (''product_id'', pid),
              (''quantity'', PInt (fst (randint R g 1 4))),
              (''order_date'',
                 PStr (isoformat (add_days \<lparr>year = 2024, month = 2, day = 1\<rparr> idx))),
              (''status'', PStr (order_statuses ! (idx mod length order_statuses))),
              (''order_total'', PStr (format_2f total))] # rest)"
  by (cases "randint R g 1 4") (auto simp: and_then_eq_Inr)

text \<open>What the loop guarantees of every order it returns.\<close>

definition order_made :: "(pyval \<times> rat) list \<Rightarrow> row \<Rightarrow> bool" where
  "order_made PL ord =
     (\<exists>pid q price t.
        getitem ord ''product_id'' = Inr pid \<and> getitem ord ''quantity'' = Inr (PInt q) \<and>
        py_dict_get PL pid = Inr price \<and> mul_int_float q price = Inr t \<and>
        getitem ord ''order_total'' = Inr (PStr (format_2f t)))"

lemma orders_loop_made:
  "orders_loop R U P PL idxs g = Inr os \<Longrightarrow> list_all (order_made PL) os"
proof (induction idxs arbitrary: g os)
  case Nil
  then show ?case by simp
next
  case (Cons idx idxs)
  from Cons.prems obtain uid pid price total rest where
    price: "py_dict_get PL pid = Inr price"
    and total: "mul_int_float (fst (randint R g 1 4)) price = Inr total"
    and rest: "orders_loop R U P PL idxs (snd (randint R g 1 4)) = Inr rest"
    and os: "os = [(''order_id'', PStr (''O'' @ format_0d 3 (int idx + 1))),
              (''user_id'', uid),
              (''product_id'', pid),
              (''quantity'', PInt (fst (randint R g 1 4))),
              (''order_date'',
                 PStr (isoformat (add_days \<lparr>year = 2024, month = 2, day = 1\<rparr> idx))),
              (''status'', PStr (order_statuses ! (idx mod length order_statuses))),
              (''order_total'', PStr (format_2f total))] # rest"
    unfolding orders_loop_Cons_Inr by blast
  have "order_made PL (hd os)"
    unfolding order_made_def os using price total by (simp add: getitem_def)
  moreover have "list_all (order_made PL) rest"
    using rest by (rule Cons.IH)
  ultimately show ?case
    by (simp add: os)
qed

lemma orders_loop_length:
  "orders_loop R U P PL idxs g = Inr os \<Longrightarrow> length os = length idxs"
proof (induction idxs arbitrary: g os)
  case Nil
  then show ?case by simp
next
  case (Cons idx idxs)
  then show ?case
    unfolding orders_loop_Cons_Inr by auto
qed

text \<open>What the loop needs of an index to get past it.\<close>

definition order_ready :: "row list \<Rightarrow> row list \<Rightarrow> (pyval \<times> rat) list \<Rightarrow> nat \<Rightarrow> bool" where
  "order_ready U P PL idx =
     (\<exists>user product uid pid price.
        index U idx = Inr user \<and> index P idx = Inr product \<and>
        getitem user ''user_id'' = Inr uid \<and> getitem product ''product_id'' = Inr pid \<and>
        py_dict_get PL pid = Inr price \<and>
        (\<forall>q. 1 \<le> q \<longrightarrow> q \<le> 4 \<longrightarrow> (\<exists>t. mul_int_float q price = Inr t)))"

lemma orders_loop_total:
  assumes "randint_in_range R" and "\<forall>idx\<in>set idxs. order_ready U P PL idx"
  shows "\<exists>os. orders_loop R U P PL idxs g = Inr os"
  using assms(2)
proof (induction idxs arbitrary: g)
  case Nil
  then show ?case by simp
next
  case (Cons idx idxs)
  from Cons.prems have "order_ready U P PL idx"
    by simp
  then obtain user product uid pid price where
    ready: "index U idx = Inr user" "index P idx = Inr product"
      "getitem user ''user_id'' = Inr uid" "getitem product ''product_id'' = Inr pid"
      "py_dict_get PL pid = Inr price"
    and mul: "\<And>q. 1 \<le> q \<Longrightarrow> q \<le> 4 \<Longrightarrow> \<exists>t. mul_int_float q price = Inr t"
    unfolding order_ready_def by blast
  from assms(1) have "1 \<le> fst (randint R g 1 4)" "fst (randint R g 1 4) \<le> 4"
    unfolding randint_in_range_def by simp_all
  then obtain t where t: "mul_int_float (fst (randint R g 1 4)) price = Inr t"
    using mul by blast
  from Cons.prems obtain rest where
    "orders_loop R U P PL idxs (snd (randint R g 1 4)) = Inr rest"
    using Cons.IH by auto
  with ready t show ?case
    unfolding orders_loop_Cons_Inr by blast
qed

subsection \<open>The generated orders\<close>

lemma index_generate_users: "idx < 15 \<Longrightarrow> index generate_users idx = Inr (generate_user idx)"
  by (simp add: index_def generate_users_def)

lemma length_categories: "length categories = 15"
  by (simp add: categories_def)

lemma index_generate_products:
  "idx < 15 \<Longrightarrow> index generate_products idx = Inr (generate_product (idx + 1, categories ! idx))"
  by (simp add: index_def generate_products_def length_categories nth_enumerate_eq)

lemma generate_user_id:
  "getitem (generate_user idx) ''user_id'' = Inr (PStr (''U'' @ format_0d 3 (int idx + 1)))"
  by (simp add: generate_user_def getitem_def Let_def)

lemma generate_product_id:
  "getitem (generate_product (n, c)) ''product_id'' = Inr (PStr (''P'' @ format_0d 3 (int n)))"
  by (cases c) (simp add: generate_product_def getitem_def)

lemma generated_ready:
  assumes "idx < 15"
  shows "order_ready generate_users generate_products price_table idx"
proof -
  let ?pid = "PStr (''P'' @ format_0d 3 (int idx + 1))"
  from assms have "idx \<in> set [0..<15]"
    by simp
  with price_table_ids have "\<not> isl (py_dict_get price_table ?pid)"
    unfolding list_all_iff by blast
  then obtain price where price: "py_dict_get price_table ?pid = Inr price"
    by (cases "py_dict_get price_table ?pid") simp_all
  then have "(?pid, price) \<in> set price_table"
    by (rule price_table_get)
  then have mul: "\<forall>q. 1 \<le> q \<longrightarrow> q \<le> 4 \<longrightarrow> (\<exists>t. mul_int_float q price = Inr t)"
    using price_table_mul by blast
  have pid: "getitem (generate_product (idx + 1, categories ! idx)) ''product_id'' = Inr ?pid"
    by (simp add: generate_product_id add.commute)
  show ?thesis
    unfolding order_ready_def
    using index_generate_users [OF assms] index_generate_products [OF assms]
      generate_user_id [of idx] pid price mul
    by blast
qed

lemma generate_orders_total:
  assumes "randint_in_range R"
  shows "\<exists>os. generate_orders R generate_users generate_products = Inr os"
proof -
  have "\<forall>idx\<in>set [0..<15]. order_ready generate_users generate_products price_table idx"
    using generated_ready by simp
  with assms show ?thesis
    unfolding generate_orders_def price_lookup_generated and_then_Inr
    by (rule orders_loop_total)
qed

lemma generate_orders_made:
  assumes "generate_orders R generate_users generate_products = Inr os"
  shows "list_all (order_made price_table) os" and "length os = 15"
proof -
  from assms have loop:
    "orders_loop R generate_users generate_products price_table [0..<15] (Random R 42) = Inr os"
    by (simp add: generate_orders_def price_lookup_generated)
  from loop show "list_all (order_made price_table) os"
    by (rule orders_loop_made)
  from loop show "length os = 15"
    by (simp add: orders_loop_length)
qed

lemma orders_loop_quantity:
  assumes "randint_in_range R"
  shows "orders_loop R U P PL idxs g = Inr os \<Longrightarrow>
    list_all (\<lambda>ord. \<exists>q. getitem ord ''quantity'' = Inr (PInt q) \<and> 1 \<le> q \<and> q \<le> 4) os"
proof (induction idxs arbitrary: g os)
  case Nil
  then show ?case by simp
next
  case (Cons idx idxs)
  from Cons.prems obtain uid pid total rest where
    rest: "orders_loop R U P PL idxs (snd (randint R g 1 4)) = Inr rest"
    and os: "os = [(''order_id'', PStr (''O'' @ format_0d 3 (int idx + 1))),
              (''user_id'', uid),
              (''product_id'', pid),
              (''quantity'', PInt (fst (randint R g 1 4))),
              (''order_date'',
                 PStr (isoformat (add_days \<lparr>year = 2024, month = 2, day = 1\<rparr> idx))),
              (''status'', PStr (order_statuses ! (idx mod length order_statuses))),
              (''order_total'', PStr (format_2f total))] # rest"
    unfolding orders_loop_Cons_Inr by blast
  from assms have "1 \<le> fst (randint R g 1 4)" "fst (randint R g 1 4) \<le> 4"
    unfolding randint_in_range_def by simp_all
  moreover have "list_all (\<lambda>ord. \<exists>q. getitem ord ''quantity'' = Inr (PInt q) \<and> 1 \<le> q \<and> q \<le> 4)
      rest"
    using rest by (rule Cons.IH)
  ultimately show ?case
    by (simp add: os getitem_def)
qed

subsection \<open>The order total as a decimal number\<close>

text \<open>
  A text with two decimal places (digits, a point, two digits) and the number it
  denotes: the whole part plus the hundredths.
\<close>

definition digits_value :: "string \<Rightarrow> int" where
  "digits_value w = foldl (\<lambda>n c. 10 * n + (of_char c - 48)) 0 w"

definition two_decimal_places :: "string \<Rightarrow> bool" where
  "two_decimal_places t =
     (case rev t of
        b # a # p # w \<Rightarrow>
          p = CHR ''.'' \<and> w \<noteq> [] \<and> list_all (\<lambda>c. c \<in> set ''0123456789'') (a # b # w)
      | _ \<Rightarrow> False)"

definition decimal_value :: "string \<Rightarrow> rat" where
  "decimal_value t =
     (case rev t of
        b # a # p # w \<Rightarrow> of_int (digits_value (rev w)) + of_int (digits_value [a, b]) / 100
      | _ \<Rightarrow> 0)"

text \<open>
  The text in the \<open>price\<close> field of the product with a given id, when exactly one
  product carries the id.
\<close>

definition price_text_of :: "row list \<Rightarrow> pyval \<Rightarrow> error + string" where
  "price_text_of products pid =
     (case filter (\<lambda>p. getitem p ''product_id'' = Inr pid) products of
        [p] \<Rightarrow>
          (case getitem p ''price'' of
             Inr (PStr s) \<Rightarrow> Inr s
           | Inr v \<Rightarrow> Inl TypeError
           | Inl e \<Rightarrow> Inl e)
      | _ \<Rightarrow> Inl KeyError)"

text \<open>
  Every entry of the price dictionary against the generated products, and every
  quantity from 1 to 4 against every price, by computation.
\<close>

lemma totals_table:
  "list_all (\<lambda>(pid, x).
      case price_text_of products_table pid of
        Inr ptext \<Rightarrow>
          py_float (PStr ptext) = Inr x \<and> two_decimal_places ptext \<and>
          list_all (\<lambda>q.
            case mul_int_float q x of
              Inr y \<Rightarrow>
                two_decimal_places (format_2f y) \<and>
                decimal_value (format_2f y) = of_int q * decimal_value ptext \<and>
                \<bar>decimal_value (format_2f y) - of_int q * x\<bar> \<le> 1 / 200
            | Inl e \<Rightarrow> False) [1, 2, 3, 4]
      | Inl e \<Rightarrow> False) price_table"
  by (simp add: price_table_def products_table_def price_text_of_def getitem_def float_defs
      text_defs parse_defs two_decimal_places_def decimal_value_def digits_value_def)

lemma order_made_total:
  assumes "order_made price_table ord"
    and "\<exists>q. getitem ord ''quantity'' = Inr (PInt q) \<and> 1 \<le> q \<and> q \<le> 4"
  shows "\<exists>pid q ptext price t.
       getitem ord ''product_id'' = Inr pid \<and> getitem ord ''quantity'' = Inr (PInt q) \<and>
       price_text_of generate_products pid = Inr ptext \<and> two_decimal_places ptext \<and>
       py_float (PStr ptext) = Inr price \<and>
       getitem ord ''order_total'' = Inr (PStr t) \<and> two_decimal_places t \<and>
       decimal_value t = of_int q * decimal_value ptext \<and>
       \<bar>decimal_value t - of_int q * price\<bar> \<le> 1 / 200"
proof -
  from assms obtain pid q price y where
    fields: "getitem ord ''product_id'' = Inr pid" "getitem ord ''quantity'' = Inr (PInt q)"
    and range: "1 \<le> q" "q \<le> 4"
    and price: "py_dict_get price_table pid = Inr price"
    and total: "mul_int_float q price = Inr y"
    and written: "getitem ord ''order_total'' = Inr (PStr (format_2f y))"
    unfolding order_made_def by auto
  from price have "(pid, price) \<in> set price_table"
    by (rule price_table_get)
  from totals_table [unfolded list_all_iff, THEN bspec, OF this]
  have entry: "case price_text_of products_table pid of
        Inr ptext \<Rightarrow>
          py_float (PStr ptext) = Inr price \<and> two_decimal_places ptext \<and>
          (\<forall>q\<in>set [1, 2, 3, 4].
            case mul_int_float q price of
              Inr y \<Rightarrow>
                two_decimal_places (format_2f y) \<and>
                decimal_value (format_2f y) = of_int q * decimal_value ptext \<and>
                \<bar>decimal_value (format_2f y) - of_int q * price\<bar> \<le> 1 / 200
            | Inl e \<Rightarrow> False)
      | Inl e \<Rightarrow> False"
    by (simp only: prod.case)
  then obtain ptext where ptext: "price_text_of products_table pid = Inr ptext"
    by (cases "price_text_of products_table pid") simp_all
  from range have "q = 1 \<or> q = 2 \<or> q = 3 \<or> q = 4"
    by arith
  then have q: "q \<in> set [1, 2, 3, 4]"
    by auto
  from entry have float: "py_float (PStr ptext) = Inr price" and places: "two_decimal_places ptext"
    and every: "\<forall>q\<in>set [1, 2, 3, 4].
            case mul_int_float q price of
              Inr y \<Rightarrow>
                two_decimal_places (format_2f y) \<and>
                decimal_value (format_2f y) = of_int q * decimal_value ptext \<and>
                \<bar>decimal_value (format_2f y) - of_int q * price\<bar> \<le> 1 / 200
            | Inl e \<Rightarrow> False"
    unfolding ptext sum.case by blast+
  from every [THEN bspec, OF q] have "two_decimal_places (format_2f y) \<and>
        decimal_value (format_2f y) = of_int q * decimal_value ptext \<and>
        \<bar>decimal_value (format_2f y) - of_int q * price\<bar> \<le> 1 / 200"
    unfolding total sum.case .
  with fields ptext float places written show ?thesis
    unfolding generate_products_eq by blast
qed

text \<open>
  An instance of the generator parameters, to show that the promise of \<open>randint\<close> can be
  met: the state is a counter, and \<open>randint(a, b)\<close> returns \<open>a\<close> plus the counter
  modulo the width of the range.
\<close>

definition example_prng :: "int prng" where
  "example_prng =
     \<lparr>Random = (\<lambda>seed. seed), randint = (\<lambda>g a b. (a + g mod (b - a + 1), g + 1))\<rparr>"

lemma example_prng_in_range: "randint_in_range example_prng"
proof -
  have "a \<le> a + g mod (b - a + 1) \<and> a + g mod (b - a + 1) \<le> b" if "a \<le> b" for a b g :: int
  proof -
    from that have "0 < b - a + 1"
      by simp
    then have "0 \<le> g mod (b - a + 1)" "g mod (b - a + 1) < b - a + 1"
      by (rule pos_mod_sign, rule pos_mod_bound)
    then show ?thesis
      by simp
  qed
  then show ?thesis
    by (simp add: randint_in_range_def example_prng_def)
qed

text \<open>
  Claim C1. For every order that the generator produces, the \<open>order_total\<close> field is a
  text with two decimal places, and the number it denotes is exactly the order's quantity
  times the price written in the \<open>price\<close> field of the one product with the order's
  \<open>product_id\<close>; it is also within half a hundredth of the quantity times the
  floating-point number that \<open>float\<close> reads from that field, which are the factors of
  the code. The generator does produce its 15 orders whenever \<open>randint\<close> keeps its
  promise.
\<close>

theorem order_total_is_quantity_times_price:
  assumes "randint_in_range R"
  shows "\<exists>orders. generate_orders R generate_users generate_products = Inr orders \<and>
    length orders = 15 \<and>
    (\<forall>ord\<in>set orders. \<exists>pid q ptext price t.
       getitem ord ''product_id'' = Inr pid \<and> getitem ord ''quantity'' = Inr (PInt q) \<and>
       price_text_of generate_products pid = Inr ptext \<and> two_decimal_places ptext \<and>
       py_float (PStr ptext) = Inr price \<and>
       getitem ord ''order_total'' = Inr (PStr t) \<and> two_decimal_places t \<and>
       decimal_value t = of_int q * decimal_value ptext \<and>
       \<bar>decimal_value t - of_int q * price\<bar> \<le> 1 / 200)"
proof -
  from assms obtain os where os: "generate_orders R generate_users generate_products = Inr os"
    using generate_orders_total by blast
  then have made: "list_all (order_made price_table) os" and len: "length os = 15"
    by (rule generate_orders_made)+
  from os have
    "orders_loop R generate_users generate_products price_table [0..<15] (Random R 42) = Inr os"
    by (simp add: generate_orders_def price_lookup_generated)
  with assms have
    "list_all (\<lambda>ord. \<exists>q. getitem ord ''quantity'' = Inr (PInt q) \<and> 1 \<le> q \<and> q \<le> 4) os"
    by (rule orders_loop_quantity)
  with made have "\<forall>ord\<in>set os. \<exists>pid q ptext price t.
       getitem ord ''product_id'' = Inr pid \<and> getitem ord ''quantity'' = Inr (PInt q) \<and>
       price_text_of generate_products pid = Inr ptext \<and> two_decimal_places ptext \<and>
       py_float (PStr ptext) = Inr price \<and>
       getitem ord ''order_total'' = Inr (PStr t) \<and> two_decimal_places t \<and>
       decimal_value t = of_int q * decimal_value ptext \<and>
       \<bar>decimal_value t - of_int q * price\<bar> \<le> 1 / 200"
    unfolding list_all_iff using order_made_total by blast
  with os len show ?thesis
    by blast
qed

theorem order_total_is_quantity_times_price_witness:
  "randint_in_range example_prng \<and>
   (\<exists>orders. generate_orders example_prng generate_users generate_products = Inr orders \<and>
      length orders = 15 \<and>
      (\<forall>ord\<in>set orders. \<exists>pid q ptext price t.
         getitem ord ''product_id'' = Inr pid \<and> getitem ord ''quantity'' = Inr (PInt q) \<and>
         price_text_of generate_products pid = Inr ptext \<and> two_decimal_places ptext \<and>
         py_float (PStr ptext) = Inr price \<and>
         getitem ord ''order_total'' = Inr (PStr t) \<and> two_decimal_places t \<and>
         decimal_value t = of_int q * decimal_value ptext \<and>
         \<bar>decimal_value t - of_int q * price\<bar> \<le> 1 / 200))"
  using order_total_is_quantity_times_price [OF example_prng_in_range] example_prng_in_range
  by (rule conjI [rotated])

subsection \<open>Rows, columns and the loops of generate_reviews and generate_payments\<close>

text \<open>The values of one column of a record set, and whether every row has the column.\<close>

definition column :: "string \<Rightarrow> row list \<Rightarrow> (error + pyval) list" where
  "column key rows = map (\<lambda>r. getitem r key) rows"

definition all_present :: "(error + pyval) list \<Rightarrow> bool" where
  "all_present vs = list_all (\<lambda>v. \<not> isl v) vs"

definition order_row :: "nat \<Rightarrow> pyval \<Rightarrow> pyval \<Rightarrow> int \<Rightarrow> rat \<Rightarrow> row" where
  "order_row idx uid pid q x =
     [(''order_id'', PStr (''O'' @ format_0d 3 (int idx + 1))),
      (''user_id'', uid),
      (''product_id'', pid),
      (''quantity'', PInt q),
      (''order_date'', PStr (isoformat (add_days \<lparr>year = 2024, month = 2, day = 1\<rparr> idx))),
      (''status'', PStr (order_statuses ! (idx mod length order_statuses))),
      (''order_total'', PStr (format_2f x))]"

definition review_row :: "nat \<Rightarrow> pyval \<Rightarrow> int \<Rightarrow> row" where
  "review_row idx oid rating =
     [(''review_id'', PStr (''R'' @ format_0d 3 (int idx + 1))),
      (''order_id'', oid),
      (''rating'', PInt rating),
      (''comment'', PStr (comments ! (idx mod length comments))),
      (''review_date'', PStr (isoformat (add_days \<lparr>year = 2024, month = 3, day = 1\<rparr> idx)))]"

definition payment_row :: "nat \<Rightarrow> pyval \<Rightarrow> pyval \<Rightarrow> row" where
  "payment_row idx oid amount =
     [(''payment_id'', PStr (''PM'' @ format_0d 3 (int idx + 1))),
      (''order_id'', oid),
      (''amount'', amount),
      (''method'', PStr (methods ! (idx mod length methods))),
      (''payment_status'', PStr (payment_statuses ! (idx mod length payment_statuses)))]"

lemma orders_loop_rows:
  "orders_loop R U P PL idxs g = Inr os \<Longrightarrow>
     list_all2 (\<lambda>ord idx. \<exists>user product uid pid q total.
        index U idx = Inr user \<and> getitem user ''user_id'' = Inr uid \<and>
        index P idx = Inr product \<and> getitem product ''product_id'' = Inr pid \<and>
        ord = order_row idx uid pid q total) os idxs"
proof (induction idxs arbitrary: g os)
  case Nil
  then show ?case by simp
next
  case (Cons idx idxs)
  from Cons.prems obtain user product uid pid total rest where
    here: "index U idx = Inr user" "index P idx = Inr product"
      "getitem user ''user_id'' = Inr uid" "getitem product ''product_id'' = Inr pid"
    and rest: "orders_loop R U P PL idxs (snd (randint R g 1 4)) = Inr rest"
    and os: "os = order_row idx uid pid (fst (randint R g 1 4)) total # rest"
    unfolding orders_loop_Cons_Inr order_row_def by blast
  from rest have "list_all2 (\<lambda>ord idx. \<exists>user product uid pid q total.
        index U idx = Inr user \<and> getitem user ''user_id'' = Inr uid \<and>
        index P idx = Inr product \<and> getitem product ''product_id'' = Inr pid \<and>
        ord = order_row idx uid pid q total) rest idxs"
    by (rule Cons.IH)
  with here show ?case
    unfolding os by auto
qed

lemma reviews_loop_Cons_Inr:
  "reviews_loop R ((idx, ord) # rest) g = Inr rs \<longleftrightarrow>
     (\<exists>oid rs'. getitem ord ''order_id'' = Inr oid \<and>
        reviews_loop R rest (snd (randint R g 3 5)) = Inr rs' \<and>
        rs = review_row idx oid (fst (randint R g 3 5)) # rs')"
  by (cases "randint R g 3 5") (auto simp: and_then_eq_Inr review_row_def)

declare reviews_loop.simps(2) [simp del]

lemma reviews_loop_rows:
  "reviews_loop R (enumerate n orders) g = Inr rs \<Longrightarrow>
     list_all2 (\<lambda>r (idx, ord). \<exists>oid rating.
        getitem ord ''order_id'' = Inr oid \<and> r = review_row idx oid rating)
       rs (enumerate n orders)"
proof (induction orders arbitrary: n g rs)
  case Nil
  then show ?case by simp
next
  case (Cons ord orders)
  from Cons.prems obtain oid rs' where
    oid: "getitem ord ''order_id'' = Inr oid"
    and rest: "reviews_loop R (enumerate (Suc n) orders) (snd (randint R g 3 5)) = Inr rs'"
    and rs: "rs = review_row n oid (fst (randint R g 3 5)) # rs'"
    by (auto simp: reviews_loop_Cons_Inr)
  from rest have "list_all2 (\<lambda>r (idx, ord). \<exists>oid rating.
        getitem ord ''order_id'' = Inr oid \<and> r = review_row idx oid rating)
       rs' (enumerate (Suc n) orders)"
    by (rule Cons.IH)
  with oid show ?case
    unfolding rs by auto
qed

lemma reviews_loop_total:
  "all_present (column ''order_id'' orders) \<Longrightarrow>
     \<exists>rs. reviews_loop R (enumerate n orders) g = Inr rs"
proof (induction orders arbitrary: n g)
  case Nil
  then show ?case by simp
next
  case (Cons ord orders)
  from Cons.prems obtain oid where oid: "getitem ord ''order_id'' = Inr oid"
    by (cases "getitem ord ''order_id''") (simp_all add: all_present_def column_def)
  from Cons.prems have "all_present (column ''order_id'' orders)"
    by (simp add: all_present_def column_def)
  then obtain rs' where
    "reviews_loop R (enumerate (Suc n) orders) (snd (randint R g 3 5)) = Inr rs'"
    using Cons.IH by blast
  with oid show ?case
    by (auto simp: reviews_loop_Cons_Inr)
qed

lemma payments_loop_Cons_Inr:
  "payments_loop ((idx, ord) # rest) = Inr ps \<longleftrightarrow>
     (\<exists>oid amount ps'. getitem ord ''order_id'' = Inr oid \<and>
        getitem ord ''order_total'' = Inr amount \<and> payments_loop rest = Inr ps' \<and>
        ps = payment_row idx oid amount # ps')"
  by (auto simp: and_then_eq_Inr payment_row_def)

declare payments_loop.simps(2) [simp del]

lemma payments_loop_rows:
  "payments_loop (enumerate n orders) = Inr ps \<Longrightarrow>
     list_all2 (\<lambda>p (idx, ord). \<exists>oid amount.
        getitem ord ''order_id'' = Inr oid \<and> getitem ord ''order_total'' = Inr amount \<and>
        p = payment_row idx oid amount)
       ps (enumerate n orders)"
proof (induction orders arbitrary: n ps)
  case Nil
  then show ?case by simp
next
  case (Cons ord orders)
  from Cons.prems obtain oid amount ps' where
    here: "getitem ord ''order_id'' = Inr oid" "getitem ord ''order_total'' = Inr amount"
    and rest: "payments_loop (enumerate (Suc n) orders) = Inr ps'"
    and ps: "ps = payment_row n oid amount # ps'"
    by (auto simp: payments_loop_Cons_Inr)
  from rest have "list_all2 (\<lambda>p (idx, ord). \<exists>oid amount.
        getitem ord ''order_id'' = Inr oid \<and> getitem ord ''order_total'' = Inr amount \<and>
        p = payment_row idx oid amount)
       ps' (enumerate (Suc n) orders)"
    by (rule Cons.IH)
  with here show ?case
    unfolding ps by auto
qed

lemma payments_loop_total:
  "all_present (column ''order_id'' orders) \<Longrightarrow> all_present (column ''order_total'' orders) \<Longrightarrow>
     \<exists>ps. payments_loop (enumerate n orders) = Inr ps"
proof (induction orders arbitrary: n)
  case Nil
  then show ?case by simp
next
  case (Cons ord orders)
  from Cons.prems obtain oid amount where
    here: "getitem ord ''order_id'' = Inr oid" "getitem ord ''order_total'' = Inr amount"
    by (cases "getitem ord ''order_id''"; cases "getitem ord ''order_total''")
      (simp_all add: all_present_def column_def)
  from Cons.prems have "all_present (column ''order_id'' orders)"
    "all_present (column ''order_total'' orders)"
    by (simp_all add: all_present_def column_def)
  then obtain ps' where "payments_loop (enumerate (Suc n) orders) = Inr ps'"
    using Cons.IH by blast
  with here show ?case
    by (auto simp: payments_loop_Cons_Inr)
qed

subsection \<open>Identifiers and references in the generated record sets\<close>

text \<open>
  Every row of \<open>rows\<close> has the column \<open>key\<close>, and its value occurs in the column \<open>key'\<close>
  of \<open>targets\<close>; every row has the column \<open>key\<close>, with no value twice.
\<close>

definition references :: "string \<Rightarrow> row list \<Rightarrow> string \<Rightarrow> row list \<Rightarrow> bool" where
  "references key rows key' targets =
     (all_present (column key rows) \<and> set (column key rows) \<subseteq> set (column key' targets))"

definition unique_ids :: "string \<Rightarrow> row list \<Rightarrow> bool" where
  "unique_ids key rows = (all_present (column key rows) \<and> distinct (column key rows))"

text \<open>The identifiers \<open>X001\<close> to \<open>X015\<close> for a prefix \<open>X\<close>.\<close>

definition id_column :: "string \<Rightarrow> nat \<Rightarrow> (error + pyval) list" where
  "id_column pre n = map (\<lambda>idx. Inr (PStr (pre @ format_0d 3 (int idx + 1)))) [0..<n]"

lemma id_column_distinct: "distinct (id_column pre 15)"
  by (simp add: id_column_def upt_rec text_defs)

lemma id_column_present: "all_present (id_column pre n)"
  by (simp add: id_column_def all_present_def list_all_iff)

lemma list_all2_memberD: "list_all2 P xs ys \<Longrightarrow> x \<in> set xs \<Longrightarrow> \<exists>y\<in>set ys. P x y"
  by (induction rule: list_all2_induct) auto

lemma column_list_all2:
  "list_all2 P rows ys \<Longrightarrow> (\<And>r y. P r y \<Longrightarrow> getitem r key = f y) \<Longrightarrow>
     column key rows = map f ys"
  by (induction rule: list_all2_induct) (auto simp: column_def)

lemma map_enumerate_snd: "map (\<lambda>(idx, x). f x) (enumerate n xs) = map f xs"
  by (induction xs arbitrary: n) simp_all

lemma map_enumerate_fst: "map (\<lambda>(idx, x). f idx) (enumerate n xs) = map f [n..<n + length xs]"
  by (induction xs arbitrary: n) (simp_all add: upt_rec)

lemma same_id_same_row:
  assumes "distinct (column key rows)" and "r \<in> set rows" and "r' \<in> set rows"
    and "getitem r key = getitem r' key"
  shows "r = r'"
proof -
  from assms(1) have "inj_on (\<lambda>r. getitem r key) (set rows)"
    by (simp add: column_def distinct_map)
  with assms(2-4) show ?thesis
    by (auto dest: inj_onD)
qed

lemma users_user_id: "column ''user_id'' generate_users = id_column ''U'' 15"
  by (simp add: column_def generate_users_def generate_user_id id_column_def)

lemma products_product_id: "column ''product_id'' generate_products = id_column ''P'' 15"
  by (simp add: generate_products_eq products_table_def column_def getitem_def id_column_def
      upt_rec text_defs)

lemma order_row_fields:
  "getitem (order_row idx uid pid q x) ''order_id'' = Inr (PStr (''O'' @ format_0d 3 (int idx + 1)))"
  "getitem (order_row idx uid pid q x) ''user_id'' = Inr uid"
  "getitem (order_row idx uid pid q x) ''product_id'' = Inr pid"
  "getitem (order_row idx uid pid q x) ''quantity'' = Inr (PInt q)"
  "getitem (order_row idx uid pid q x) ''order_total'' = Inr (PStr (format_2f x))"
  by (simp_all add: order_row_def getitem_def)

lemma review_row_fields:
  "getitem (review_row idx oid rating) ''review_id'' = Inr (PStr (''R'' @ format_0d 3 (int idx + 1)))"
  "getitem (review_row idx oid rating) ''order_id'' = Inr oid"
  "getitem (review_row idx oid rating) ''rating'' = Inr (PInt rating)"
  by (simp_all add: review_row_def getitem_def)

lemma payment_row_fields:
  "getitem (payment_row idx oid amount) ''payment_id'' =
     Inr (PStr (''PM'' @ format_0d 3 (int idx + 1)))"
  "getitem (payment_row idx oid amount) ''order_id'' = Inr oid"
  "getitem (payment_row idx oid amount) ''amount'' = Inr amount"
  by (simp_all add: payment_row_def getitem_def)

text \<open>The orders that the generator makes from its own users and products.\<close>

lemma generated_orders_rows:
  assumes "generate_orders R generate_users generate_products = Inr os"
  shows "list_all2 (\<lambda>ord idx. \<exists>q x.
     ord = order_row idx (PStr (''U'' @ format_0d 3 (int idx + 1)))
       (PStr (''P'' @ format_0d 3 (int idx + 1))) q x) os [0..<15]"
proof -
  from assms have
    "orders_loop R generate_users generate_products price_table [0..<15] (Random R 42) = Inr os"
    by (simp add: generate_orders_def price_lookup_generated)
  then have "list_all2 (\<lambda>ord idx. \<exists>user product uid pid q x.
        index generate_users idx = Inr user \<and> getitem user ''user_id'' = Inr uid \<and>
        index generate_products idx = Inr product \<and> getitem product ''product_id'' = Inr pid \<and>
        ord = order_row idx uid pid q x) os [0..<15]"
    by (rule orders_loop_rows)
  then show ?thesis
  proof (rule list.rel_mono_strong)
    fix ord idx
    assume "idx \<in> set [0..<15]"
    then have idx: "idx < 15"
      by simp
    assume "\<exists>user product uid pid q x.
        index generate_users idx = Inr user \<and> getitem user ''user_id'' = Inr uid \<and>
        index generate_products idx = Inr product \<and> getitem product ''product_id'' = Inr pid \<and>
        ord = order_row idx uid pid q x"
    then show "\<exists>q x. ord = order_row idx (PStr (''U'' @ format_0d 3 (int idx + 1)))
       (PStr (''P'' @ format_0d 3 (int idx + 1))) q x"
      using idx
      by (auto simp: index_generate_users index_generate_products generate_user_id
          generate_product_id add.commute)
  qed
qed

lemma generated_orders_columns:
  assumes "generate_orders R generate_users generate_products = Inr os"
  shows "column ''order_id'' os = id_column ''O'' 15"
    and "column ''user_id'' os = id_column ''U'' 15"
    and "column ''product_id'' os = id_column ''P'' 15"
    and "all_present (column ''order_total'' os)"
proof -
  note rows = generated_orders_rows [OF assms]
  show "column ''order_id'' os = id_column ''O'' 15"
    unfolding id_column_def using rows
    by (rule column_list_all2) (auto simp: order_row_fields)
  show "column ''user_id'' os = id_column ''U'' 15"
    unfolding id_column_def using rows
    by (rule column_list_all2) (auto simp: order_row_fields)
  show "column ''product_id'' os = id_column ''P'' 15"
    unfolding id_column_def using rows
    by (rule column_list_all2) (auto simp: order_row_fields)
  have "\<forall>ord\<in>set os. \<not> isl (getitem ord ''order_total'')"
    using list_all2_memberD [OF rows] by (fastforce simp: order_row_fields)
  then show "all_present (column ''order_total'' os)"
    by (simp add: all_present_def column_def list_all_iff)
qed

lemma generated_reviews:
  assumes "generate_reviews R os = Inr rs"
  shows "column ''order_id'' rs = column ''order_id'' os"
    and "column ''review_id'' rs = id_column ''R'' (length os)"
proof -
  from assms have "list_all2 (\<lambda>r (idx, ord). \<exists>oid rating.
        getitem ord ''order_id'' = Inr oid \<and> r = review_row idx oid rating)
       rs (enumerate 0 os)"
    unfolding generate_reviews_def by (rule reviews_loop_rows)
  note rows = this
  have "column ''order_id'' rs = map (\<lambda>(idx, ord). getitem ord ''order_id'') (enumerate 0 os)"
    using rows by (rule column_list_all2) (auto simp: review_row_fields)
  then show "column ''order_id'' rs = column ''order_id'' os"
    by (simp add: map_enumerate_snd column_def)
  have "column ''review_id'' rs =
    map (\<lambda>(idx, ord). Inr (PStr (''R'' @ format_0d 3 (int idx + 1)))) (enumerate 0 os)"
    using rows by (rule column_list_all2) (auto simp: review_row_fields)
  then show "column ''review_id'' rs = id_column ''R'' (length os)"
    by (simp add: map_enumerate_fst id_column_def)
qed

lemma generated_payments:
  assumes "generate_payments os = Inr ps"
  shows "column ''order_id'' ps = column ''order_id'' os"
    and "column ''payment_id'' ps = id_column ''PM'' (length os)"
    and "column ''amount'' ps = column ''order_total'' os"
proof -
  from assms have "list_all2 (\<lambda>p (idx, ord). \<exists>oid amount.
        getitem ord ''order_id'' = Inr oid \<and> getitem ord ''order_total'' = Inr amount \<and>
        p = payment_row idx oid amount)
       ps (enumerate 0 os)"
    unfolding generate_payments_def by (rule payments_loop_rows)
  note rows = this
  have "column ''order_id'' ps = map (\<lambda>(idx, ord). getitem ord ''order_id'') (enumerate 0 os)"
    using rows by (rule column_list_all2) (auto simp: payment_row_fields)
  then show "column ''order_id'' ps = column ''order_id'' os"
    by (simp add: map_enumerate_snd column_def)
  have "column ''payment_id'' ps =
    map (\<lambda>(idx, ord). Inr (PStr (''PM'' @ format_0d 3 (int idx + 1)))) (enumerate 0 os)"
    using rows by (rule column_list_all2) (auto simp: payment_row_fields)
  then show "column ''payment_id'' ps = id_column ''PM'' (length os)"
    by (simp add: map_enumerate_fst id_column_def)
  have "column ''amount'' ps = map (\<lambda>(idx, ord). getitem ord ''order_total'') (enumerate 0 os)"
    using rows by (rule column_list_all2) (auto simp: payment_row_fields)
  then show "column ''amount'' ps = column ''order_total'' os"
    by (simp add: map_enumerate_snd column_def)
qed

text \<open>All three generation steps succeed when \<open>randint\<close> keeps its promise.\<close>

lemma generated_record_sets:
  assumes "randint_in_range R"
  shows "\<exists>os rs ps. generate_orders R generate_users generate_products = Inr os \<and>
    generate_reviews R os = Inr rs \<and> generate_payments os = Inr ps"
proof -
  from assms obtain os where os: "generate_orders R generate_users generate_products = Inr os"
    using generate_orders_total by blast
  then have ids: "all_present (column ''order_id'' os)"
    and totals: "all_present (column ''order_total'' os)"
    by (simp_all add: generated_orders_columns id_column_present)
  from ids obtain rs where "generate_reviews R os = Inr rs"
    unfolding generate_reviews_def
    using reviews_loop_total [where orders = os and R = R and n = 0 and g = "Random R 7"]
    by blast
  moreover from ids totals obtain ps where "generate_payments os = Inr ps"
    unfolding generate_payments_def
    using payments_loop_total [where orders = os and n = 0]
    by blast
  ultimately show ?thesis
    using os by blast
qed

lemma generated_payment_of_order:
  assumes os: "generate_orders R generate_users generate_products = Inr os"
    and ps: "generate_payments os = Inr ps"
    and p: "p \<in> set ps"
  shows "\<exists>ord\<in>set os. \<exists>t. getitem p ''order_id'' = getitem ord ''order_id'' \<and>
    getitem p ''amount'' = Inr (PStr t) \<and> getitem ord ''order_total'' = Inr (PStr t)"
proof -
  from ps have "list_all2 (\<lambda>p (idx, ord). \<exists>oid amount.
        getitem ord ''order_id'' = Inr oid \<and> getitem ord ''order_total'' = Inr amount \<and>
        p = payment_row idx oid amount)
       ps (enumerate 0 os)"
    unfolding generate_payments_def by (rule payments_loop_rows)
  from list_all2_memberD [OF this p] obtain idx ord oid amount where
    mem: "(idx, ord) \<in> set (enumerate 0 os)"
    and oid: "getitem ord ''order_id'' = Inr oid"
    and amount: "getitem ord ''order_total'' = Inr amount"
    and row: "p = payment_row idx oid amount"
    by auto
  from mem have ord: "ord \<in> set os"
    by (auto simp: in_set_enumerate_eq)
  from list_all2_memberD [OF generated_orders_rows [OF os] ord]
  obtain t where t: "getitem ord ''order_total'' = Inr (PStr t)"
    by (auto simp: order_row_fields)
  with amount have "amount = PStr t"
    by simp
  with row oid have "getitem p ''order_id'' = getitem ord ''order_id''"
    "getitem p ''amount'' = Inr (PStr t)"
    by (simp_all add: payment_row_fields)
  with t ord show ?thesis
    by blast
qed

text \<open>
  Claim C10. Every generated payment refers to one of the generated orders, and its
  \<open>amount\<close> field is the \<open>order_total\<close> text of every order that has its \<open>order_id\<close>
  (there is exactly one).
\<close>

theorem payment_amount_is_order_total:
  assumes "randint_in_range R"
  shows "\<exists>orders payments.
    generate_orders R generate_users generate_products = Inr orders \<and>
    generate_payments orders = Inr payments \<and> length payments = 15 \<and>
    (\<forall>p\<in>set payments. \<exists>ord\<in>set orders. getitem p ''order_id'' = getitem ord ''order_id'') \<and>
    (\<forall>p\<in>set payments. \<forall>ord\<in>set orders.
       getitem p ''order_id'' = getitem ord ''order_id'' \<longrightarrow>
       (\<exists>t. getitem p ''amount'' = Inr (PStr t) \<and> getitem ord ''order_total'' = Inr (PStr t)))"
proof -
  from assms obtain os rs ps where
    os: "generate_orders R generate_users generate_products = Inr os"
    and ps: "generate_payments os = Inr ps"
    using generated_record_sets by blast
  from os have len: "length os = 15"
    by (rule generate_orders_made)
  have "length (column ''payment_id'' ps) = length os"
    by (simp add: generated_payments(2) [OF ps] id_column_def)
  with len have "length ps = 15"
    by (simp add: column_def)
  moreover have "\<exists>ord\<in>set os. getitem p ''order_id'' = getitem ord ''order_id''"
    if "p \<in> set ps" for p
    using generated_payment_of_order [OF os ps that] by blast
  moreover have "\<exists>t. getitem p ''amount'' = Inr (PStr t) \<and> getitem ord ''order_total'' = Inr (PStr t)"
    if p: "p \<in> set ps" and ord: "ord \<in> set os"
      and same: "getitem p ''order_id'' = getitem ord ''order_id''" for p ord
  proof -
    from generated_payment_of_order [OF os ps p] obtain ord' t where
      ord': "ord' \<in> set os" "getitem p ''order_id'' = getitem ord' ''order_id''"
      and t: "getitem p ''amount'' = Inr (PStr t)" "getitem ord' ''order_total'' = Inr (PStr t)"
      by blast
    have "distinct (column ''order_id'' os)"
      by (simp add: generated_orders_columns(1) [OF os] id_column_distinct)
    then have "ord = ord'"
      using ord ord'(1) same ord'(2) by (auto intro: same_id_same_row)
    with t show ?thesis
      by blast
  qed
  ultimately show ?thesis
    using os ps by blast
qed

theorem payment_amount_is_order_total_witness:
  "randint_in_range example_prng \<and>
   (\<exists>orders payments.
      generate_orders example_prng generate_users generate_products = Inr orders \<and>
      generate_payments orders = Inr payments \<and> length payments = 15 \<and>
      (\<forall>p\<in>set payments. \<exists>ord\<in>set orders. getitem p ''order_id'' = getitem ord ''order_id'') \<and>
      (\<forall>p\<in>set payments. \<forall>ord\<in>set orders.
         getitem p ''order_id'' = getitem ord ''order_id'' \<longrightarrow>
         (\<exists>t. getitem p ''amount'' = Inr (PStr t) \<and> getitem ord ''order_total'' = Inr (PStr t))))"
  using payment_amount_is_order_total [OF example_prng_in_range] example_prng_in_range
  by simp

text \<open>
  Claim C8. In the generated record sets every order's \<open>user_id\<close> and \<open>product_id\<close>
  occur among the generated users and products, every review's and every payment's
  \<open>order_id\<close> occurs among the generated orders, and no identifier occurs twice in
  its record set.
\<close>

theorem generated_references_and_ids:
  assumes "randint_in_range R"
  shows "\<exists>orders reviews payments.
    generate_orders R generate_users generate_products = Inr orders \<and>
    generate_reviews R orders = Inr reviews \<and>
    generate_payments orders = Inr payments \<and>
    references ''user_id'' orders ''user_id'' generate_users \<and>
    references ''product_id'' orders ''product_id'' generate_products \<and>
    references ''order_id'' reviews ''order_id'' orders \<and>
    references ''order_id'' payments ''order_id'' orders \<and>
    unique_ids ''user_id'' generate_users \<and>
    unique_ids ''product_id'' generate_products \<and>
    unique_ids ''order_id'' orders \<and>
    unique_ids ''review_id'' reviews \<and>
    unique_ids ''payment_id'' payments"
proof -
  from assms obtain os rs ps where
    os: "generate_orders R generate_users generate_products = Inr os"
    and rs: "generate_reviews R os = Inr rs"
    and ps: "generate_payments os = Inr ps"
    using generated_record_sets by blast
  from os have len: "length os = 15"
    by (rule generate_orders_made)
  note cols = generated_orders_columns(1-3) [OF os] generated_reviews [OF rs]
    generated_payments(1,2) [OF ps] users_user_id products_product_id
  have "references ''user_id'' os ''user_id'' generate_users"
    "references ''product_id'' os ''product_id'' generate_products"
    "references ''order_id'' rs ''order_id'' os"
    "references ''order_id'' ps ''order_id'' os"
    by (simp_all add: references_def cols id_column_present)
  moreover have "unique_ids ''user_id'' generate_users"
    "unique_ids ''product_id'' generate_products"
    "unique_ids ''order_id'' os"
    "unique_ids ''review_id'' rs"
    "unique_ids ''payment_id'' ps"
    by (simp_all add: unique_ids_def cols len id_column_present id_column_distinct)
  ultimately show ?thesis
    using os rs ps by blast
qed

theorem generated_references_and_ids_witness:
  "randint_in_range example_prng \<and>
   (\<exists>orders reviews payments.
      generate_orders example_prng generate_users generate_products = Inr orders \<and>
      generate_reviews example_prng orders = Inr reviews \<and>
      generate_payments orders = Inr payments \<and>
      references ''user_id'' orders ''user_id'' generate_users \<and>
      references ''product_id'' orders ''product_id'' generate_products \<and>
      references ''order_id'' reviews ''order_id'' orders \<and>
      references ''order_id'' payments ''order_id'' orders \<and>
      unique_ids ''user_id'' generate_users \<and>
      unique_ids ''product_id'' generate_products \<and>
      unique_ids ''order_id'' orders \<and>
      unique_ids ''review_id'' reviews \<and>
      unique_ids ''payment_id'' payments)"
  using generated_references_and_ids [OF example_prng_in_range] example_prng_in_range
  by simp

subsection \<open>Determinism of the generator\<close>

text \<open>
  A record that \<open>DictWriter\<close> can write: every key is a field name and no value is a
  floating-point number (whose text is not modelled).
\<close>

definition writable :: "string list \<Rightarrow> row \<Rightarrow> bool" where
  "writable fieldnames r =
     list_all (\<lambda>(k, v). k \<in> set fieldnames \<and> (case v of PFloat x \<Rightarrow> False | _ \<Rightarrow> True)) r"

lemma traverse_total:
  "\<forall>x\<in>set xs. \<exists>y. f x = Inr y \<Longrightarrow> \<exists>ys. traverse f xs = Inr ys"
  by (induction xs) auto

lemma cell_text_total: "(case v of PFloat x \<Rightarrow> False | _ \<Rightarrow> True) \<Longrightarrow> \<exists>s. cell_text v = Inr s"
  by (cases v) simp_all

lemma writerow_total:
  assumes "\<forall>v\<in>set vs. (case v of PFloat x \<Rightarrow> False | _ \<Rightarrow> True)"
  shows "\<exists>line. writerow vs = Inr line"
proof -
  from assms have "\<exists>cells. traverse cell_text vs = Inr cells"
    by (intro traverse_total) (simp add: cell_text_total)
  then show ?thesis
    by (auto simp: writerow_def)
qed

lemma writable_row:
  assumes "writable fieldnames r"
  shows "\<exists>line. and_then (dict_to_list fieldnames r) writerow = Inr line"
proof -
  from assms have keys: "\<not> list_ex (\<lambda>k. k \<notin> set fieldnames) (map fst r)"
    by (auto simp: writable_def list_all_iff list_ex_iff)
  have "case (case map_of r key of None \<Rightarrow> PStr [] | Some v \<Rightarrow> v) of
      PFloat x \<Rightarrow> False | _ \<Rightarrow> True" for key
  proof (cases "map_of r key")
    case None
    then show ?thesis by simp
  next
    case (Some v)
    then have "(key, v) \<in> set r"
      by (rule map_of_SomeD)
    with assms Some show ?thesis
      by (auto simp: writable_def list_all_iff)
  qed
  then have "\<exists>line. writerow
      (map (\<lambda>key. case map_of r key of None \<Rightarrow> PStr [] | Some v \<Rightarrow> v) fieldnames) = Inr line"
    by (intro writerow_total) auto
  with keys show ?thesis
    by (simp add: dict_to_list_def)
qed

lemma csv_text_total:
  assumes "list_all (writable fieldnames) rows"
  shows "\<exists>text. csv_text fieldnames rows = Inr text"
proof -
  have "\<exists>header. writerow (map PStr fieldnames) = Inr header"
    by (intro writerow_total) auto
  moreover from assms
  have "\<exists>lines. traverse (\<lambda>r. and_then (dict_to_list fieldnames r) writerow) rows = Inr lines"
    by (intro traverse_total) (simp add: list_all_iff writable_row)
  ultimately show ?thesis
    by (auto simp: csv_text_def)
qed

lemma users_writable:
  "list_all (writable [''user_id'', ''name'', ''email'', ''join_date'', ''loyalty_tier''])
     generate_users"
  by (simp add: generate_users_eq users_table_def writable_def)

lemma products_writable:
  "list_all (writable [''product_id'', ''name'', ''category'', ''price'', ''in_stock''])
     generate_products"
  by (simp add: generate_products_eq products_table_def writable_def)

lemma orders_writable:
  assumes "generate_orders R generate_users generate_products = Inr os"
  shows "list_all (writable [''order_id'', ''user_id'', ''product_id'', ''quantity'',
    ''order_date'', ''status'', ''order_total'']) os"
proof -
  have "writable [''order_id'', ''user_id'', ''product_id'', ''quantity'',
    ''order_date'', ''status'', ''order_total''] ord" if "ord \<in> set os" for ord
  proof -
    from list_all2_memberD [OF generated_orders_rows [OF assms] that]
    obtain idx q x where "ord = order_row idx (PStr (''U'' @ format_0d 3 (int idx + 1)))
       (PStr (''P'' @ format_0d 3 (int idx + 1))) q x"
      by blast
    then show ?thesis
      by (simp add: order_row_def writable_def)
  qed
  then show ?thesis
    by (simp add: list_all_iff)
qed

lemma order_fields_text:
  assumes "generate_orders R generate_users generate_products = Inr os" and "ord \<in> set os"
  shows "\<exists>s t. getitem ord ''order_id'' = Inr (PStr s) \<and> getitem ord ''order_total'' = Inr (PStr t)"
proof -
  from list_all2_memberD [OF generated_orders_rows [OF assms(1)] assms(2)]
  obtain idx q x where "ord = order_row idx (PStr (''U'' @ format_0d 3 (int idx + 1)))
       (PStr (''P'' @ format_0d 3 (int idx + 1))) q x"
    by blast
  then show ?thesis
    by (simp add: order_row_fields)
qed

lemma reviews_writable:
  assumes "generate_orders R generate_users generate_products = Inr os"
    and "generate_reviews R' os = Inr rs"
  shows "list_all (writable [''review_id'', ''order_id'', ''rating'', ''comment'', ''review_date''])
    rs"
proof -
  from assms(2) have rows: "list_all2 (\<lambda>r (idx, ord). \<exists>oid rating.
        getitem ord ''order_id'' = Inr oid \<and> r = review_row idx oid rating)
       rs (enumerate 0 os)"
    unfolding generate_reviews_def by (rule reviews_loop_rows)
  have "writable [''review_id'', ''order_id'', ''rating'', ''comment'', ''review_date''] r"
    if "r \<in> set rs" for r
  proof -
    from list_all2_memberD [OF rows that] obtain idx ord oid rating where
      "(idx, ord) \<in> set (enumerate 0 os)" and oid: "getitem ord ''order_id'' = Inr oid"
      and r: "r = review_row idx oid rating"
      by auto
    then have "ord \<in> set os"
      by (auto simp: in_set_enumerate_eq)
    with order_fields_text [OF assms(1)] oid obtain s where "oid = PStr s"
      by fastforce
    then show ?thesis
      by (simp add: r review_row_def writable_def)
  qed
  then show ?thesis
    by (simp add: list_all_iff)
qed

lemma payments_writable:
  assumes "generate_orders R generate_users generate_products = Inr os"
    and "generate_payments os = Inr ps"
  shows "list_all (writable [''payment_id'', ''order_id'', ''amount'', ''method'',
    ''payment_status'']) ps"
proof -
  from assms(2) have rows: "list_all2 (\<lambda>p (idx, ord). \<exists>oid amount.
        getitem ord ''order_id'' = Inr oid \<and> getitem ord ''order_total'' = Inr amount \<and>
        p = payment_row idx oid amount)
       ps (enumerate 0 os)"
    unfolding generate_payments_def by (rule payments_loop_rows)
  have "writable [''payment_id'', ''order_id'', ''amount'', ''method'', ''payment_status''] p"
    if "p \<in> set ps" for p
  proof -
    from list_all2_memberD [OF rows that] obtain idx ord oid amount where
      "(idx, ord) \<in> set (enumerate 0 os)" and oid: "getitem ord ''order_id'' = Inr oid"
      and amount: "getitem ord ''order_total'' = Inr amount"
      and p: "p = payment_row idx oid amount"
      by auto
    then have "ord \<in> set os"
      by (auto simp: in_set_enumerate_eq)
    with order_fields_text [OF assms(1)] oid amount obtain s t where "oid = PStr s" "amount = PStr t"
      by fastforce
    then show ?thesis
      by (simp add: p payment_row_def writable_def)
  qed
  then show ?thesis
    by (simp add: list_all_iff)
qed

text \<open>
  Claim C3. The five files that the generator writes are the same at every run: their
  contents do not depend on what the data directory held before, or on whether it
  existed, and a second run on the directory that a run has left changes nothing in it.
  The generator reads nothing else: the only other input of \<open>main\<close> is the library's
  pseudo-random generator, seeded \<open>42\<close> for the quantities and \<open>7\<close> for the
  ratings, whose numbers are a function of the seed. The run does end and writes the
  five files whenever \<open>randint\<close> keeps its promise.
\<close>

theorem generator_deterministic:
  assumes "randint_in_range R"
  shows "\<exists>users_csv products_csv orders_csv reviews_csv payments_csv.
    \<forall>data_dir. \<exists>fs.
      generator_main R data_dir = Inr fs \<and>
      fs = (case data_dir of None \<Rightarrow> Map.empty | Some old \<Rightarrow> old)
        (''users.csv'' \<mapsto> users_csv, ''products.csv'' \<mapsto> products_csv,
         ''orders.csv'' \<mapsto> orders_csv, ''reviews.csv'' \<mapsto> reviews_csv,
         ''payments.csv'' \<mapsto> payments_csv) \<and>
      generator_main R (Some fs) = Inr fs"
proof -
  from assms obtain os rs ps where
    os: "generate_orders R generate_users generate_products = Inr os"
    and rs: "generate_reviews R os = Inr rs"
    and ps: "generate_payments os = Inr ps"
    using generated_record_sets by blast
  obtain tu where tu: "csv_text [''user_id'', ''name'', ''email'', ''join_date'', ''loyalty_tier'']
      generate_users = Inr tu"
    using csv_text_total [OF users_writable] by blast
  obtain tp where tp: "csv_text [''product_id'', ''name'', ''category'', ''price'', ''in_stock'']
      generate_products = Inr tp"
    using csv_text_total [OF products_writable] by blast
  obtain to where to: "csv_text [''order_id'', ''user_id'', ''product_id'', ''quantity'',
      ''order_date'', ''status'', ''order_total''] os = Inr to"
    using csv_text_total [OF orders_writable [OF os]] by blast
  obtain tr where tr: "csv_text [''review_id'', ''order_id'', ''rating'', ''comment'',
      ''review_date''] rs = Inr tr"
    using csv_text_total [OF reviews_writable [OF os rs]] by blast
  obtain tpay where tpay: "csv_text [''payment_id'', ''order_id'', ''amount'', ''method'',
      ''payment_status''] ps = Inr tpay"
    using csv_text_total [OF payments_writable [OF os ps]] by blast
  have run: "generator_main R data_dir =
      Inr ((case data_dir of None \<Rightarrow> Map.empty | Some old \<Rightarrow> old)
        (''users.csv'' \<mapsto> tu, ''products.csv'' \<mapsto> tp, ''orders.csv'' \<mapsto> to,
         ''reviews.csv'' \<mapsto> tr, ''payments.csv'' \<mapsto> tpay))" for data_dir
    by (simp add: generator_main_def write_csv_def os rs ps tu tp to tr tpay)
  have again: "generator_main R (Some fs) = Inr fs"
    if "fs = (case data_dir of None \<Rightarrow> Map.empty | Some old \<Rightarrow> old)
        (''users.csv'' \<mapsto> tu, ''products.csv'' \<mapsto> tp, ''orders.csv'' \<mapsto> to,
         ''reviews.csv'' \<mapsto> tr, ''payments.csv'' \<mapsto> tpay)" for fs data_dir
    unfolding run that by (auto simp: fun_upd_def)
  from run again show ?thesis
    by blast
qed

theorem generator_deterministic_witness:
  "randint_in_range example_prng \<and>
   (\<exists>users_csv products_csv orders_csv reviews_csv payments_csv.
    \<forall>data_dir. \<exists>fs.
      generator_main example_prng data_dir = Inr fs \<and>
      fs = (case data_dir of None \<Rightarrow> Map.empty | Some old \<Rightarrow> old)
        (''users.csv'' \<mapsto> users_csv, ''products.csv'' \<mapsto> products_csv,
         ''orders.csv'' \<mapsto> orders_csv, ''reviews.csv'' \<mapsto> reviews_csv,
         ''payments.csv'' \<mapsto> payments_csv) \<and>
      generator_main example_prng (Some fs) = Inr fs)"
  using generator_deterministic [OF example_prng_in_range] example_prng_in_range
  by (rule conjI [rotated])

section \<open>The loader (load_csv_to_sqlite.py)\<close>

subsection \<open>Reading CSV text\<close>

text \<open>
  The file is opened with \<open>newline=""\<close>, so the reader receives the lines with their
  ends: a line ends after a line feed, after a carriage return and line feed, or after
  a carriage return alone.
\<close>

fun splitlines :: "string \<Rightarrow> string \<Rightarrow> string list" where
  "splitlines line [] = (if line = [] then [] else [line])"
| "splitlines line (c # cs) =
     (if c = LF then (line @ [c]) # splitlines [] cs
      else if c = CR then
        (case cs of
           [] \<Rightarrow> [line @ [c]]
         | d # ds \<Rightarrow>
             if d = LF then (line @ [c, d]) # splitlines [] ds
             else (line @ [c]) # splitlines [] cs)
      else splitlines (line @ [c]) cs)"

text \<open>
  The states of the reader of the \<open>csv\<close> module that the default dialect reaches (no
  escape character, quoting on demand, not strict), and its step on one character;
  \<open>None\<close> is the end of a line. The reader holds the field being read and the fields
  read so far. A field longer than 131072 characters is an error.
\<close>

datatype reader_state =
  START_RECORD | START_FIELD | IN_FIELD | IN_QUOTED_FIELD | QUOTE_IN_QUOTED_FIELD | EAT_CRNL

record reader =
  state :: reader_state
  field :: string
  saved_fields :: "string list"

definition field_limit :: nat where
  "field_limit = 131072"

definition add_char :: "char \<Rightarrow> reader_state \<Rightarrow> reader \<Rightarrow> error + reader" where
  "add_char c st r =
     (if field_limit \<le> length (field r) then Inl CsvError
      else Inr (r\<lparr>state := st, field := field r @ [c]\<rparr>))"

definition save_field :: "reader_state \<Rightarrow> reader \<Rightarrow> error + reader" where
  "save_field st r = Inr \<lparr>state = st, field = [], saved_fields = saved_fields r @ [field r]\<rparr>"

definition is_eol :: "char option \<Rightarrow> bool" where
  "is_eol c = (c = None \<or> c = Some LF \<or> c = Some CR)"

definition after_eol :: "char option \<Rightarrow> reader_state" where
  "after_eol c = (if c = None then START_RECORD else EAT_CRNL)"

fun process_char :: "reader \<Rightarrow> char option \<Rightarrow> error + reader" where
  "process_char r c =
     (case state r of
        START_RECORD \<Rightarrow>
          if c = None then Inr r
          else if is_eol c then Inr (r\<lparr>state := EAT_CRNL\<rparr>)
          else if c = Some DQUOTE then Inr (r\<lparr>state := IN_QUOTED_FIELD\<rparr>)
          else if c = Some CHR '','' then save_field START_FIELD r
          else add_char (the c) IN_FIELD r
      | START_FIELD \<Rightarrow>
          if is_eol c then save_field (after_eol c) r
          else if c = Some DQUOTE then Inr (r\<lparr>state := IN_QUOTED_FIELD\<rparr>)
          else if c = Some CHR '','' then save_field START_FIELD r
          else add_char (the c) IN_FIELD r
      | IN_FIELD \<Rightarrow>
          if is_eol c then save_field (after_eol c) r
          else if c = Some CHR '','' then save_field START_FIELD r
          else add_char (the c) IN_FIELD r
      | IN_QUOTED_FIELD \<Rightarrow>
          if c = None then Inr r
          else if c = Some DQUOTE then Inr (r\<lparr>state := QUOTE_IN_QUOTED_FIELD\<rparr>)
          else add_char (the c) IN_QUOTED_FIELD r
      | QUOTE_IN_QUOTED_FIELD \<Rightarrow>
          if c = Some DQUOTE then add_char DQUOTE IN_QUOTED_FIELD r
          else if c = Some CHR '','' then save_field START_FIELD r
          else if is_eol c then save_field (after_eol c) r
          else add_char (the c) IN_FIELD r
      | EAT_CRNL \<Rightarrow>
          if c = Some LF \<or> c = Some CR then Inr r
          else if c = None then Inr (r\<lparr>state := START_RECORD\<rparr>)
          else Inl CsvError)"

declare process_char.simps [simp del]

fun process_line :: "reader \<Rightarrow> string \<Rightarrow> error + reader" where
  "process_line r [] = process_char r None"
| "process_line r (c # cs) = and_then (process_char r (Some c)) (\<lambda>r'. process_line r' cs)"

text \<open>
  The records of a list of lines. A record is complete when a line ends in the state
  \<open>START_RECORD\<close>; at the end of the input, a record that is still open (inside a quoted
  field) is returned with what has been read of it.
\<close>

fun read_records :: "reader \<Rightarrow> string list \<Rightarrow> error + string list list" where
  "read_records r [] =
     (if field r \<noteq> [] \<or> state r = IN_QUOTED_FIELD then Inr [saved_fields r @ [field r]] else Inr [])"
| "read_records r (line # lines) =
     and_then (process_line r line) (\<lambda>r'.
     if state r' = START_RECORD
     then and_then (read_records \<lparr>state = START_RECORD, field = [], saved_fields = []\<rparr> lines)
            (\<lambda>recs. Inr (saved_fields r' # recs))
     else read_records r' lines)"

definition csv_reader :: "string \<Rightarrow> error + string list list" where
  "csv_reader text =
     read_records \<lparr>state = START_RECORD, field = [], saved_fields = []\<rparr> (splitlines [] text)"

text \<open>
  \<open>csv.DictReader\<close>: the first record gives the field names; empty records after it are
  skipped; a record is zipped with the field names into a dictionary, a later duplicate
  of a name replacing the value of the earlier one, and names without a cell get \<open>None\<close>.
  The cells beyond the field names are stored under the key \<open>None\<close>, which is no column
  name: the loader never reads that entry and it is left out here.
\<close>

definition dict_row :: "string list \<Rightarrow> string list \<Rightarrow> row" where
  "dict_row fieldnames cells =
     (let d = fold (\<lambda>(k, v) d. dict_set d k (PStr v)) (zip fieldnames cells) []
      in fold (\<lambda>k d. dict_set d k PNone) (drop (length cells) fieldnames) d)"

definition DictReader :: "string \<Rightarrow> error + row list" where
  "DictReader text =
     and_then (csv_reader text) (\<lambda>recs.
     case recs of
       [] \<Rightarrow> Inr []
     | fieldnames # rest \<Rightarrow> Inr (map (dict_row fieldnames) (filter (\<lambda>cells. cells \<noteq> []) rest)))"

subsection \<open>Field typing\<close>

text \<open>The converters of the table are the built-ins \<open>float\<close> and \<open>int\<close>.\<close>

datatype converter = Builtin_float | Builtin_int

definition FIELD_CONVERTERS :: "string \<rightharpoonup> converter" where
  "FIELD_CONVERTERS =
     [''price'' \<mapsto> Builtin_float, ''in_stock'' \<mapsto> Builtin_int, ''quantity'' \<mapsto> Builtin_int,
      ''order_total'' \<mapsto> Builtin_float, ''rating'' \<mapsto> Builtin_int,
      ''amount'' \<mapsto> Builtin_float]"

fun convert :: "converter \<Rightarrow> pyval \<Rightarrow> error + pyval" where
  "convert Builtin_float v = and_then (py_float v) (\<lambda>x. Inr (PFloat x))"
| "convert Builtin_int v = and_then (py_int v) (\<lambda>i. Inr (PInt i))"

text \<open>The inner loop of \<open>load_csv\<close> over the items of one row.\<close>

fun process_row :: "row \<Rightarrow> row \<Rightarrow> error + row" where
  "process_row [] processed = Inr processed"
| "process_row ((key, val) # items) processed =
     (case FIELD_CONVERTERS key of
        Some converter \<Rightarrow>
          and_then (convert converter val) (\<lambda>v. process_row items (dict_set processed key v))
      | None \<Rightarrow> process_row items (dict_set processed key val))"

text \<open>
  \<open>load_csv\<close>: a missing file raises \<open>FileNotFoundError\<close>. Python converts each row
  as the reader delivers it; here the file is read to its end first, so when a field
  beyond the size limit follows a row whose conversion fails, the reader's error is
  reported instead of the conversion's. Either way \<open>load_csv\<close> raises.
\<close>

definition load_csv :: "files \<Rightarrow> string \<Rightarrow> error + row list" where
  "load_csv data filename =
     (case data filename of
        None \<Rightarrow> Inl (FileNotFoundError (''Missing CSV file: '' @ filename))
      | Some text \<Rightarrow>
          and_then (DictReader text) (\<lambda>rows. traverse (\<lambda>r. process_row r []) rows))"

subsection \<open>Field typing, column by column\<close>

text \<open>
  The typed value of a cell, by the name of its column: \<open>float\<close> for three columns,
  \<open>int\<close> for three others, and the cell as it is for every other column.
\<close>

definition typed_value :: "string \<Rightarrow> pyval \<Rightarrow> error + pyval" where
  "typed_value key v =
     (if key \<in> {''price'', ''amount'', ''order_total''} then convert Builtin_float v
      else if key \<in> {''in_stock'', ''quantity'', ''rating''} then convert Builtin_int v
      else Inr v)"

text \<open>
  The field typing as the specification words it: \<open>price\<close> and \<open>amount\<close> to
  floating-point, \<open>in_stock\<close>, \<open>quantity\<close> and \<open>rating\<close> to integer, every other field
  unchanged.
\<close>

definition claimed_typed_value :: "string \<Rightarrow> pyval \<Rightarrow> error + pyval" where
  "claimed_typed_value key v =
     (if key \<in> {''price'', ''amount''} then convert Builtin_float v
      else if key \<in> {''in_stock'', ''quantity'', ''rating''} then convert Builtin_int v
      else Inr v)"

text \<open>Typing every cell of every row with a given rule.\<close>

definition typed_rows :: "(string \<Rightarrow> pyval \<Rightarrow> error + pyval) \<Rightarrow> row list \<Rightarrow> error + row list" where
  "typed_rows rule rows =
     traverse (traverse (\<lambda>(key, v). and_then (rule key v) (\<lambda>v'. Inr (key, v')))) rows"

lemma dict_set_keys: "fst ` set (dict_set d k v) = insert k (fst ` set d)"
  by (induction d k v rule: dict_set.induct) auto

lemma dict_set_distinct: "distinct (map fst d) \<Longrightarrow> distinct (map fst (dict_set d k v))"
  by (induction d k v rule: dict_set.induct) (auto simp: dict_set_keys)

lemma dict_set_fresh: "k \<notin> fst ` set d \<Longrightarrow> dict_set d k v = d @ [(k, v)]"
  by (induction d k v rule: dict_set.induct) auto

lemma fold_dict_set_distinct:
  "distinct (map fst d) \<Longrightarrow> distinct (map fst (fold (\<lambda>(k, v) d. dict_set d k (f v)) kvs d))"
  by (induction kvs arbitrary: d) (auto simp: dict_set_distinct)

lemma fold_dict_set_None_distinct:
  "distinct (map fst d) \<Longrightarrow> distinct (map fst (fold (\<lambda>k d. dict_set d k PNone) ks d))"
  by (induction ks arbitrary: d) (auto simp: dict_set_distinct)

lemma dict_row_distinct: "distinct (map fst (dict_row fieldnames cells))"
  by (simp add: dict_row_def Let_def fold_dict_set_distinct fold_dict_set_None_distinct)

lemma field_converter_typed:
  "(case FIELD_CONVERTERS key of Some c \<Rightarrow> convert c v | None \<Rightarrow> Inr v) = typed_value key v"
  by (simp add: FIELD_CONVERTERS_def typed_value_def)

lemma process_row_typed:
  "distinct (map fst items) \<Longrightarrow> fst ` set items \<inter> fst ` set processed = {} \<Longrightarrow>
     process_row items processed =
       and_then (traverse (\<lambda>(key, v). and_then (typed_value key v) (\<lambda>v'. Inr (key, v'))) items)
         (\<lambda>new. Inr (processed @ new))"
proof (induction items arbitrary: processed)
  case Nil
  then show ?case by simp
next
  case (Cons item items)
  obtain key v where item: "item = (key, v)"
    by (cases item)
  from Cons.prems item have fresh: "key \<notin> fst ` set processed"
    by auto
  have step: "process_row items (dict_set processed key v') =
      and_then (traverse (\<lambda>(key, v). and_then (typed_value key v) (\<lambda>v'. Inr (key, v'))) items)
        (\<lambda>new. Inr (processed @ (key, v') # new))" for v'
  proof -
    from Cons.prems item have "distinct (map fst items)"
      and "fst ` set items \<inter> fst ` set (dict_set processed key v') = {}"
      by (auto simp: dict_set_keys)
    then show ?thesis
      by (simp add: Cons.IH dict_set_fresh [OF fresh])
  qed
  show ?case
  proof (cases "typed_value key v")
    case (Inl e)
    then show ?thesis
      using field_converter_typed [where key = key and v = v] item
      by (simp split: option.splits)
  next
    case (Inr v')
    then show ?thesis
      using field_converter_typed [where key = key and v = v] item step [of v'] step [of v]
      by (cases "traverse (\<lambda>(key, v). and_then (typed_value key v) (\<lambda>v'. Inr (key, v'))) items")
        (simp_all split: option.splits)
  qed
qed

lemma traverse_cong:
  "(\<And>x. x \<in> set xs \<Longrightarrow> f x = g x) \<Longrightarrow> traverse f xs = traverse g xs"
  by (induction xs) simp_all

lemma DictReader_distinct:
  assumes "DictReader text = Inr rows" and "r \<in> set rows"
  shows "distinct (map fst r)"
proof (cases "csv_reader text")
  case (Inl e)
  with assms(1) show ?thesis
    by (simp add: DictReader_def)
next
  case (Inr recs)
  with assms show ?thesis
    by (cases recs) (auto simp: DictReader_def dict_row_distinct)
qed

text \<open>
  Claim C2, as amended: the loader converts exactly the columns \<open>price\<close>, \<open>amount\<close> and
  \<open>order_total\<close> with \<open>float\<close> and the columns \<open>in_stock\<close>, \<open>quantity\<close> and \<open>rating\<close>
  with \<open>int\<close>, and leaves the value of every other column as the reader delivers it,
  for every row of every file, whatever the table.
\<close>

theorem load_csv_field_typing:
  "load_csv data filename =
     (case data filename of
        None \<Rightarrow> Inl (FileNotFoundError (''Missing CSV file: '' @ filename))
      | Some text \<Rightarrow> and_then (DictReader text) (typed_rows typed_value))"
proof (cases "data filename")
  case None
  then show ?thesis
    by (simp add: load_csv_def)
next
  case (Some content)
  show ?thesis
  proof (cases "DictReader content")
    case (Inl e)
    with Some show ?thesis
      by (simp add: load_csv_def)
  next
    case (Inr rows)
    have "traverse (\<lambda>r. process_row r []) rows = typed_rows typed_value rows"
      unfolding typed_rows_def
    proof (rule traverse_cong)
      fix r
      assume "r \<in> set rows"
      with Inr have "distinct (map fst r)"
        by (rule DictReader_distinct)
      then have "process_row r [] =
        and_then (traverse (\<lambda>(key, v). and_then (typed_value key v) (\<lambda>v'. Inr (key, v'))) r)
          (\<lambda>new. Inr ([] @ new))"
        by (rule process_row_typed) simp
      then show "process_row r [] =
        traverse (\<lambda>(key, v). and_then (typed_value key v) (\<lambda>v'. Inr (key, v'))) r"
        by (cases "traverse (\<lambda>(key, v). and_then (typed_value key v) (\<lambda>v'. Inr (key, v'))) r")
          simp_all
    qed
    with Some Inr show ?thesis
      by (simp add: load_csv_def)
  qed
qed

lemmas csv_read_defs =
  csv_reader_def DictReader_def dict_row_def process_char.simps add_char_def save_field_def
  is_eol_def after_eol_def field_limit_def CR_def LF_def DQUOTE_def

text \<open>
  The claim as the specification words it fails on a file with an \<open>order_total\<close>
  column: the loader delivers a float where the specification's typing leaves the text.
\<close>

theorem field_typing_counterexample:
  "load_csv [''orders.csv'' \<mapsto> ''order_id,order_total'' @ [CR, LF] @ ''O001,449.97'' @ [CR, LF]]
     ''orders.csv'' =
     Inr [[(''order_id'', PStr ''O001''),
           (''order_total'', PFloat (1978988988601467 / 4398046511104))]] \<and>
   and_then (DictReader (''order_id,order_total'' @ [CR, LF] @ ''O001,449.97'' @ [CR, LF]))
     (typed_rows claimed_typed_value) =
     Inr [[(''order_id'', PStr ''O001''), (''order_total'', PStr ''449.97'')]]"
  by (simp add: load_csv_def csv_read_defs FIELD_CONVERTERS_def parse_defs float_defs
      typed_rows_def claimed_typed_value_def)

subsection \<open>The database\<close>

text \<open>
  An SQLite value is \<open>NULL\<close>, an integer, a real or a text. A table is its declaration
  (columns with their type affinity, \<open>NOT NULL\<close> and \<open>PRIMARY KEY\<close> marks, and foreign
  keys) and its rows, each row holding one value per column.
\<close>

datatype sqlval = SqlNull | SqlInteger int | SqlReal rat | SqlText string

datatype affinity = TEXT | INTEGER | REAL

record column_def =
  col_name :: string
  col_affinity :: affinity
  col_not_null :: bool
  col_primary_key :: bool

record foreign_key =
  fk_column :: string
  fk_table :: string
  fk_ref_column :: string

record table_def =
  td_name :: string
  td_columns :: "column_def list"
  td_foreign_keys :: "foreign_key list"

record table =
  tbl_def :: table_def
  tbl_rows :: "sqlval list list"

type_synonym database = "(string \<times> table) list"

text \<open>The entries of \<open>TABLE_CONFIG\<close>; the \<open>CREATE TABLE\<close> text is given in parsed form.\<close>

record table_config =
  cfg_name :: string
  cfg_csv :: string
  cfg_columns :: "string list"
  cfg_schema :: table_def

definition primary_key :: "string \<Rightarrow> column_def" where
  "primary_key n =
     \<lparr>col_name = n, col_affinity = TEXT, col_not_null = False, col_primary_key = True\<rparr>"

definition not_null :: "string \<Rightarrow> affinity \<Rightarrow> column_def" where
  "not_null n a = \<lparr>col_name = n, col_affinity = a, col_not_null = True, col_primary_key = False\<rparr>"

definition users_schema :: table_def where
  "users_schema =
     \<lparr>td_name = ''users'',
      td_columns = [primary_key ''user_id'', not_null ''name'' TEXT, not_null ''email'' TEXT,
        not_null ''join_date'' TEXT, not_null ''loyalty_tier'' TEXT],
      td_foreign_keys = []\<rparr>"

definition products_schema :: table_def where
  "products_schema =
     \<lparr>td_name = ''products'',
      td_columns = [primary_key ''product_id'', not_null ''name'' TEXT,
        not_null ''category'' TEXT, not_null ''price'' REAL, not_null ''in_stock'' INTEGER],
      td_foreign_keys = []\<rparr>"

definition orders_schema :: table_def where
  "orders_schema =
     \<lparr>td_name = ''orders'',
      td_columns = [primary_key ''order_id'', not_null ''user_id'' TEXT,
        not_null ''product_id'' TEXT, not_null ''quantity'' INTEGER,
        not_null ''order_date'' TEXT, not_null ''status'' TEXT, not_null ''order_total'' REAL],
      td_foreign_keys =
        [\<lparr>fk_column = ''user_id'', fk_table = ''users'', fk_ref_column = ''user_id''\<rparr>,
         \<lparr>fk_column = ''product_id'', fk_table = ''products'', fk_ref_column = ''product_id''\<rparr>]\<rparr>"

definition reviews_schema :: table_def where
  "reviews_schema =
     \<lparr>td_name = ''reviews'',
      td_columns = [primary_key ''review_id'', not_null ''order_id'' TEXT,
        not_null ''rating'' INTEGER, not_null ''comment'' TEXT, not_null ''review_date'' TEXT],
      td_foreign_keys =
        [\<lparr>fk_column = ''order_id'', fk_table = ''orders'', fk_ref_column = ''order_id''\<rparr>]\<rparr>"

definition payments_schema :: table_def where
  "payments_schema =
     \<lparr>td_name = ''payments'',
      td_columns = [primary_key ''payment_id'', not_null ''order_id'' TEXT,
        not_null ''amount'' REAL, not_null ''method'' TEXT, not_null ''payment_status'' TEXT],
      td_foreign_keys =
        [\<lparr>fk_column = ''order_id'', fk_table = ''orders'', fk_ref_column = ''order_id''\<rparr>]\<rparr>"

definition TABLE_CONFIG :: "table_config list" where
  "TABLE_CONFIG =
     [\<lparr>cfg_name = ''users'', cfg_csv = ''users.csv'',
       cfg_columns = [''user_id'', ''name'', ''email'', ''join_date'', ''loyalty_tier''],
       cfg_schema = users_schema\<rparr>,
      \<lparr>cfg_name = ''products'', cfg_csv = ''products.csv'',
       cfg_columns = [''product_id'', ''name'', ''category'', ''price'', ''in_stock''],
       cfg_schema = products_schema\<rparr>,
      \<lparr>cfg_name = ''orders'', cfg_csv = ''orders.csv'',
       cfg_columns = [''order_id'', ''user_id'', ''product_id'', ''quantity'', ''order_date'',
         ''status'', ''order_total''],
       cfg_schema = orders_schema\<rparr>,
      \<lparr>cfg_name = ''reviews'', cfg_csv = ''reviews.csv'',
       cfg_columns = [''review_id'', ''order_id'', ''rating'', ''comment'', ''review_date''],
       cfg_schema = reviews_schema\<rparr>,
      \<lparr>cfg_name = ''payments'', cfg_csv = ''payments.csv'',
       cfg_columns = [''payment_id'', ''order_id'', ''amount'', ''method'', ''payment_status''],
       cfg_schema = payments_schema\<rparr>]"

text \<open>
  A connection has its own foreign-key switch (off when the connection is opened), the
  database as last committed and the database as the connection sees it. Python opens a
  transaction before the first \<open>INSERT\<close>; \<open>DROP TABLE\<close> and \<open>CREATE TABLE\<close> outside a
  transaction take effect at once. Opening a database file that does not exist gives
  an empty database.
\<close>

record connection =
  foreign_keys :: bool
  in_transaction :: bool
  committed :: database
  current :: database

definition connect :: "database option \<Rightarrow> connection" where
  "connect db_file =
     (let db = (case db_file of None \<Rightarrow> [] | Some db \<Rightarrow> db)
      in \<lparr>foreign_keys = False, in_transaction = False, committed = db, current = db\<rparr>)"

definition autocommit :: "connection \<Rightarrow> connection" where
  "autocommit c = (if in_transaction c then c else c\<lparr>committed := current c\<rparr>)"

definition commit :: "connection \<Rightarrow> connection" where
  "commit c = c\<lparr>in_transaction := False, committed := current c\<rparr>"

definition rollback :: "connection \<Rightarrow> connection" where
  "rollback c = c\<lparr>in_transaction := False, current := committed c\<rparr>"

text \<open>
  The statements of \<open>reset_tables\<close>. \<open>PRAGMA foreign_keys\<close> does nothing inside a
  transaction. Dropping a table while foreign keys are enforced deletes its rows under
  the checks of the referencing tables; the loader never does so and it is not modelled.
\<close>

datatype statement =
    PRAGMA_foreign_keys bool
  | DROP_TABLE_IF_EXISTS string
  | CREATE_TABLE table_def
  | COMMIT

fun execute :: "connection \<Rightarrow> statement \<Rightarrow> error + connection" where
  "execute c (PRAGMA_foreign_keys on) =
     Inr (if in_transaction c then c else c\<lparr>foreign_keys := on\<rparr>)"
| "execute c (DROP_TABLE_IF_EXISTS n) =
     (if foreign_keys c then Inl NotModelled
      else Inr (autocommit (c\<lparr>current := filter (\<lambda>nt. fst nt \<noteq> n) (current c)\<rparr>)))"
| "execute c (CREATE_TABLE td) =
     (if td_name td \<in> set (map fst (current c)) then Inl OperationalError
      else Inr (autocommit
        (c\<lparr>current := current c @ [(td_name td, \<lparr>tbl_def = td, tbl_rows = []\<rparr>)]\<rparr>)))"
| "execute c COMMIT = Inr (commit c)"

text \<open>Running statements in turn; an exception leaves the connection as it was at that point.\<close>

fun execute_all :: "connection \<Rightarrow> statement list \<Rightarrow> error option \<times> connection" where
  "execute_all c [] = (None, c)"
| "execute_all c (st # sts) =
     (case execute c st of Inl e \<Rightarrow> (Some e, c) | Inr c' \<Rightarrow> execute_all c' sts)"

text \<open>
  \<open>reset_tables\<close>: the statements it issues, in order. \<open>executescript\<close> commits an
  open transaction before it runs the script.
\<close>

definition reset_statements :: "statement list" where
  "reset_statements =
     [PRAGMA_foreign_keys False]
     @ map DROP_TABLE_IF_EXISTS (rev (map cfg_name TABLE_CONFIG))
     @ [COMMIT, PRAGMA_foreign_keys True]
     @ COMMIT # map (\<lambda>cfg. CREATE_TABLE (cfg_schema cfg)) TABLE_CONFIG
     @ [COMMIT]"

definition reset_tables :: "connection \<Rightarrow> error option \<times> connection" where
  "reset_tables conn = execute_all conn reset_statements"

subsection \<open>Inserting rows\<close>

text \<open>
  Binding a Python value to a statement parameter: an integer outside 64 bits raises
  \<open>OverflowError\<close>.
\<close>

fun bind_value :: "pyval \<Rightarrow> error + sqlval" where
  "bind_value PNone = Inr SqlNull"
| "bind_value (PStr s) = Inr (SqlText s)"
| "bind_value (PInt i) =
     (if - (2 ^ 63) \<le> i \<and> i < 2 ^ 63 then Inr (SqlInteger i) else Inl OverflowError)"
| "bind_value (PFloat x) = Inr (SqlReal x)"

text \<open>
  Storing a value in a column. A value of the column's own kind and \<open>NULL\<close> are stored as
  they are. SQLite converts the others where it can (a number in a text column, a
  numeric text in a number column); the loader's field typing never produces these and
  the conversions are not modelled.
\<close>

fun store :: "affinity \<Rightarrow> sqlval \<Rightarrow> error + sqlval" where
  "store a SqlNull = Inr SqlNull"
| "store TEXT (SqlText s) = Inr (SqlText s)"
| "store INTEGER (SqlInteger i) = Inr (SqlInteger i)"
| "store REAL (SqlReal x) = Inr (SqlReal x)"
| "store a v = Inl NotModelled"

text \<open>The value of a named column in a row; comparison with \<open>=\<close>, never true of \<open>NULL\<close>.\<close>

definition cell :: "table_def \<Rightarrow> sqlval list \<Rightarrow> string \<Rightarrow> sqlval" where
  "cell td r n =
     (case map_of (zip (map col_name (td_columns td)) r) n of None \<Rightarrow> SqlNull | Some v \<Rightarrow> v)"

fun sql_eq :: "sqlval \<Rightarrow> sqlval \<Rightarrow> bool" where
  "sql_eq SqlNull v = False"
| "sql_eq v SqlNull = False"
| "sql_eq (SqlInteger i) (SqlReal x) = (of_int i = x)"
| "sql_eq (SqlReal x) (SqlInteger i) = (of_int i = x)"
| "sql_eq a b = (a = b)"

definition has_row_with :: "table \<Rightarrow> string \<Rightarrow> sqlval \<Rightarrow> bool" where
  "has_row_with t n v = list_ex (\<lambda>r. sql_eq (cell (tbl_def t) r n) v) (tbl_rows t)"

text \<open>
  The checks on a new row: \<open>NOT NULL\<close>, the uniqueness of a primary key that is not
  \<open>NULL\<close>, and, when foreign keys are enforced, a parent row for every foreign key that
  is not \<open>NULL\<close> (a missing parent table is an error of the statement itself).
\<close>

definition violates_not_null :: "table_def \<Rightarrow> sqlval list \<Rightarrow> bool" where
  "violates_not_null td r =
     list_ex (\<lambda>cd. col_not_null cd \<and> cell td r (col_name cd) = SqlNull) (td_columns td)"

definition violates_primary_key :: "table \<Rightarrow> sqlval list \<Rightarrow> bool" where
  "violates_primary_key t r =
     list_ex (\<lambda>cd. col_primary_key cd \<and> has_row_with t (col_name cd) (cell (tbl_def t) r (col_name cd)))
       (td_columns (tbl_def t))"

definition parent_missing :: "database \<Rightarrow> table_def \<Rightarrow> bool" where
  "parent_missing db td = list_ex (\<lambda>fk. map_of db (fk_table fk) = None) (td_foreign_keys td)"

definition violates_foreign_key :: "database \<Rightarrow> table_def \<Rightarrow> sqlval list \<Rightarrow> bool" where
  "violates_foreign_key db td r =
     list_ex (\<lambda>fk. cell td r (fk_column fk) \<noteq> SqlNull \<and>
        (case map_of db (fk_table fk) of
           None \<Rightarrow> True
         | Some parent \<Rightarrow> \<not> has_row_with parent (fk_ref_column fk) (cell td r (fk_column fk))))
       (td_foreign_keys td)"

text \<open>One \<open>INSERT INTO table (columns) VALUES (?, ...)\<close> with its parameters.\<close>

definition insert_row :: "string \<Rightarrow> string list \<Rightarrow> connection \<Rightarrow> pyval list \<Rightarrow> error + connection" where
  "insert_row tname cols c params =
     (case map_of (current c) tname of
        None \<Rightarrow> Inl OperationalError
      | Some t \<Rightarrow>
          let td = tbl_def t in
          if \<not> list_all (\<lambda>n. n \<in> set (map col_name (td_columns td))) cols
             \<or> \<not> distinct cols \<or> length params \<noteq> length cols
             \<or> (foreign_keys c \<and> parent_missing (current c) td)
          then Inl OperationalError
          else
            and_then (traverse bind_value params) (\<lambda>bound.
            and_then (traverse (\<lambda>cd.
                store (col_affinity cd)
                  (case map_of (zip cols bound) (col_name cd) of None \<Rightarrow> SqlNull | Some v \<Rightarrow> v))
              (td_columns td)) (\<lambda>r.
            if violates_not_null td r \<or> violates_primary_key t r
               \<or> (foreign_keys c \<and> violates_foreign_key (current c) td r)
            then Inl IntegrityError
            else Inr (c\<lparr>in_transaction := True,
                       current := map (\<lambda>(n, t'). if n = tname then (n, t'\<lparr>tbl_rows := tbl_rows t' @ [r]\<rparr>)
                                               else (n, t')) (current c)\<rparr>))))"

fun executemany :: "string \<Rightarrow> string list \<Rightarrow> connection \<Rightarrow> pyval list list \<Rightarrow> error + connection" where
  "executemany tname cols c [] = Inr c"
| "executemany tname cols c (params # rest) =
     and_then (insert_row tname cols c params) (\<lambda>c'. executemany tname cols c' rest)"

text \<open>\<open>insert_rows\<close>: the parameter lists are built first, then inserted, then committed.\<close>

definition insert_rows :: "connection \<Rightarrow> string \<Rightarrow> string list \<Rightarrow> row list \<Rightarrow> error + connection" where
  "insert_rows conn tname cols rows =
     and_then (traverse (\<lambda>r. traverse (getitem r) cols) rows) (\<lambda>params.
     and_then (executemany tname cols conn params) (\<lambda>c. Inr (commit c)))"

subsection \<open>The main function of the loader\<close>

text \<open>
  The loop over \<open>TABLE_CONFIG\<close>, with the lines it prints (row count and table name). An
  exception leaves the \<open>with\<close> block, which rolls back what is not committed.
\<close>

fun load_tables ::
  "connection \<Rightarrow> files \<Rightarrow> table_config list \<Rightarrow> error option \<times> connection \<times> (nat \<times> string) list"
where
  "load_tables conn data [] = (None, commit conn, [])"
| "load_tables conn data (config # configs) =
     (case load_csv data (cfg_csv config) of
        Inl e \<Rightarrow> (Some e, rollback conn, [])
      | Inr rows \<Rightarrow>
          (case insert_rows conn (cfg_name config) (cfg_columns config) rows of
             Inl e \<Rightarrow> (Some e, rollback conn, [])
           | Inr conn' \<Rightarrow>
               (case load_tables conn' data configs of
                  (e, c, printed) \<Rightarrow> (e, c, (length rows, cfg_name config) # printed))))"

text \<open>
  \<open>main\<close>: from the data directory (\<open>None\<close> when it does not exist) and the database
  file (\<open>None\<close> when it does not exist) to the exception raised, if any, the database
  file afterwards, and the lines printed.
\<close>

definition loader_main ::
  "files option \<Rightarrow> database option \<Rightarrow> error option \<times> database option \<times> (nat \<times> string) list"
where
  "loader_main data_dir db_file =
     (case data_dir of
        None \<Rightarrow> (Some (FileNotFoundError ''Data directory not found''), db_file, [])
      | Some data \<Rightarrow>
          (case reset_tables (connect db_file) of
             (Some e, conn) \<Rightarrow> (Some e, Some (committed (rollback conn)), [])
           | (None, conn) \<Rightarrow>
               (case load_tables conn data TABLE_CONFIG of
                  (e, c, printed) \<Rightarrow> (e, Some (committed c), printed))))"

section \<open>Properties of the loader\<close>

text \<open>
  Claim C5. When the data directory does not exist, the loader raises
  \<open>FileNotFoundError\<close>, prints nothing and leaves the database file as it was, whether
  it existed or not: no connection is opened and no statement is run.
\<close>

theorem loader_missing_data_directory:
  "loader_main None db_file = (Some (FileNotFoundError ''Data directory not found''), db_file, [])"
  by (simp add: loader_main_def)

subsection \<open>The schema reset\<close>

text \<open>The foreign-key switch of the connection at the moment each statement runs.\<close>

fun foreign_keys_log :: "connection \<Rightarrow> statement list \<Rightarrow> (statement \<times> bool) list" where
  "foreign_keys_log c [] = []"
| "foreign_keys_log c (st # sts) =
     (st, foreign_keys c)
       # (case execute c st of Inl e \<Rightarrow> [] | Inr c' \<Rightarrow> foreign_keys_log c' sts)"

text \<open>
  Whether, along a list of statements, every table is created when the tables that its
  foreign keys refer to exist; \<open>existing\<close> are the names of the tables at the start.
\<close>

fun created_after_parents :: "string list \<Rightarrow> statement list \<Rightarrow> bool" where
  "created_after_parents existing [] = True"
| "created_after_parents existing (DROP_TABLE_IF_EXISTS n # sts) =
     created_after_parents (removeAll n existing) sts"
| "created_after_parents existing (CREATE_TABLE td # sts) =
     (list_all (\<lambda>fk. fk_table fk \<in> set existing) (td_foreign_keys td)
      \<and> created_after_parents (td_name td # existing) sts)"
| "created_after_parents existing (st # sts) = created_after_parents existing sts"

text \<open>The database after the reset: the tables of other names, then the five empty tables.\<close>

definition reset_database :: "database \<Rightarrow> database" where
  "reset_database db =
     filter (\<lambda>nt. fst nt \<notin> set (map cfg_name TABLE_CONFIG)) db
     @ map (\<lambda>cfg. (cfg_name cfg, \<lparr>tbl_def = cfg_schema cfg, tbl_rows = []\<rparr>)) TABLE_CONFIG"

lemmas schema_defs =
  TABLE_CONFIG_def users_schema_def products_schema_def orders_schema_def reviews_schema_def
  payments_schema_def primary_key_def not_null_def

lemma reset_statements_eq:
  "reset_statements =
     [PRAGMA_foreign_keys False,
      DROP_TABLE_IF_EXISTS ''payments'', DROP_TABLE_IF_EXISTS ''reviews'',
      DROP_TABLE_IF_EXISTS ''orders'', DROP_TABLE_IF_EXISTS ''products'',
      DROP_TABLE_IF_EXISTS ''users'',
      COMMIT, PRAGMA_foreign_keys True, COMMIT,
      CREATE_TABLE users_schema, CREATE_TABLE products_schema, CREATE_TABLE orders_schema,
      CREATE_TABLE reviews_schema, CREATE_TABLE payments_schema,
      COMMIT]"
  by (simp add: reset_statements_def TABLE_CONFIG_def)

lemma dropped_five:
  "filter (\<lambda>nt. fst nt \<noteq> ''payments'' \<and> fst nt \<noteq> ''reviews'' \<and> fst nt \<noteq> ''orders'' \<and>
      fst nt \<noteq> ''products'' \<and> fst nt \<noteq> ''users'') db =
   filter (\<lambda>nt. fst nt \<notin> set (map cfg_name TABLE_CONFIG)) db"
  by (rule filter_cong) (auto simp: TABLE_CONFIG_def)

lemma not_in_dropped:
  "n \<in> set (map cfg_name TABLE_CONFIG) \<Longrightarrow>
     n \<notin> fst ` set (filter (\<lambda>nt. fst nt \<notin> set (map cfg_name TABLE_CONFIG)) db)"
  by auto

lemma dropped_names_fresh:
  fixes db :: database
  shows "''users'' \<notin> fst ` set (filter (\<lambda>nt. fst nt \<notin> set (map cfg_name TABLE_CONFIG)) db)"
    and "''products'' \<notin> fst ` set (filter (\<lambda>nt. fst nt \<notin> set (map cfg_name TABLE_CONFIG)) db)"
    and "''orders'' \<notin> fst ` set (filter (\<lambda>nt. fst nt \<notin> set (map cfg_name TABLE_CONFIG)) db)"
    and "''reviews'' \<notin> fst ` set (filter (\<lambda>nt. fst nt \<notin> set (map cfg_name TABLE_CONFIG)) db)"
    and "''payments'' \<notin> fst ` set (filter (\<lambda>nt. fst nt \<notin> set (map cfg_name TABLE_CONFIG)) db)"
  by (rule not_in_dropped, simp add: TABLE_CONFIG_def)+

text \<open>On a connection just opened, the reset succeeds whatever the database holds.\<close>

lemma reset_tables_connect:
  "reset_tables (connect db_file) =
     (None, \<lparr>foreign_keys = True, in_transaction = False,
       committed = reset_database (case db_file of None \<Rightarrow> [] | Some db \<Rightarrow> db),
       current = reset_database (case db_file of None \<Rightarrow> [] | Some db \<Rightarrow> db)\<rparr>)"
proof -
  define db where "db = (case db_file of None \<Rightarrow> [] | Some db \<Rightarrow> (db :: database))"
  show ?thesis
    unfolding reset_tables_def reset_statements_eq connect_def db_def [symmetric] Let_def
    using dropped_names_fresh [of db]
    by (simp add: autocommit_def commit_def dropped_five reset_database_def schema_defs
        del: set_filter)
qed

lemma reset_foreign_keys_log:
  "map snd (foreign_keys_log (connect db_file) reset_statements) =
     [False, False, False, False, False, False, False, False, True, True, True, True, True,
      True, True]"
proof -
  define db where "db = (case db_file of None \<Rightarrow> [] | Some db \<Rightarrow> (db :: database))"
  show ?thesis
    unfolding reset_statements_eq connect_def db_def [symmetric] Let_def
    using dropped_names_fresh [of db]
    by (simp add: autocommit_def commit_def dropped_five schema_defs del: set_filter)
qed

lemma foreign_keys_log_statements:
  "fst (execute_all c sts) = None \<Longrightarrow> map fst (foreign_keys_log c sts) = sts"
proof (induction sts arbitrary: c)
  case Nil
  then show ?case by simp
next
  case (Cons st sts)
  then show ?case
    by (cases "execute c st") simp_all
qed

text \<open>
  Claim C6. The schema reset is the run of \<open>reset_statements\<close> on its connection. On
  the connection that the loader opens, it runs these statements in this order, and all
  of them succeed: foreign keys off; the five tables dropped, payments, reviews, orders,
  products, users, each with foreign keys off; foreign keys on; the five tables created,
  users, products, orders, reviews, payments, each with foreign keys on. It leaves a
  connection with foreign keys on, nothing uncommitted, and a database of the tables of
  other names followed by the five tables, empty. Along the sequence no table is created
  before the tables to which its foreign keys refer, whatever tables existed at the
  start.
\<close>

theorem reset_tables_sequence:
  "(\<forall>conn. reset_tables conn = execute_all conn reset_statements) \<and>
   reset_tables (connect db_file) =
     (None, \<lparr>foreign_keys = True, in_transaction = False,
       committed = reset_database (case db_file of None \<Rightarrow> [] | Some db \<Rightarrow> db),
       current = reset_database (case db_file of None \<Rightarrow> [] | Some db \<Rightarrow> db)\<rparr>) \<and>
   foreign_keys_log (connect db_file) reset_statements =
     [(PRAGMA_foreign_keys False, False),
      (DROP_TABLE_IF_EXISTS ''payments'', False), (DROP_TABLE_IF_EXISTS ''reviews'', False),
      (DROP_TABLE_IF_EXISTS ''orders'', False), (DROP_TABLE_IF_EXISTS ''products'', False),
      (DROP_TABLE_IF_EXISTS ''users'', False),
      (COMMIT, False), (PRAGMA_foreign_keys True, False), (COMMIT, True),
      (CREATE_TABLE users_schema, True), (CREATE_TABLE products_schema, True),
      (CREATE_TABLE orders_schema, True), (CREATE_TABLE reviews_schema, True),
      (CREATE_TABLE payments_schema, True),
      (COMMIT, True)] \<and>
   created_after_parents existing reset_statements"
proof -
  have ok: "fst (execute_all (connect db_file) reset_statements) = None"
    using reset_tables_connect [of db_file] by (simp add: reset_tables_def)
  then have "map fst (foreign_keys_log (connect db_file) reset_statements) = reset_statements"
    by (rule foreign_keys_log_statements)
  with reset_foreign_keys_log [of db_file]
  have "foreign_keys_log (connect db_file) reset_statements =
    zip reset_statements
      [False, False, False, False, False, False, False, False, True, True, True, True, True,
       True, True]"
    by (metis zip_map_fst_snd)
  also have "\<dots> =
     [(PRAGMA_foreign_keys False, False),
      (DROP_TABLE_IF_EXISTS ''payments'', False), (DROP_TABLE_IF_EXISTS ''reviews'', False),
      (DROP_TABLE_IF_EXISTS ''orders'', False), (DROP_TABLE_IF_EXISTS ''products'', False),
      (DROP_TABLE_IF_EXISTS ''users'', False),
      (COMMIT, False), (PRAGMA_foreign_keys True, False), (COMMIT, True),
      (CREATE_TABLE users_schema, True), (CREATE_TABLE products_schema, True),
      (CREATE_TABLE orders_schema, True), (CREATE_TABLE reviews_schema, True),
      (CREATE_TABLE payments_schema, True),
      (COMMIT, True)]"
    unfolding reset_statements_eq by simp
  finally have log: "foreign_keys_log (connect db_file) reset_statements =
     [(PRAGMA_foreign_keys False, False),
      (DROP_TABLE_IF_EXISTS ''payments'', False), (DROP_TABLE_IF_EXISTS ''reviews'', False),
      (DROP_TABLE_IF_EXISTS ''orders'', False), (DROP_TABLE_IF_EXISTS ''products'', False),
      (DROP_TABLE_IF_EXISTS ''users'', False),
      (COMMIT, False), (PRAGMA_foreign_keys True, False), (COMMIT, True),
      (CREATE_TABLE users_schema, True), (CREATE_TABLE products_schema, True),
      (CREATE_TABLE orders_schema, True), (CREATE_TABLE reviews_schema, True),
      (CREATE_TABLE payments_schema, True),
      (COMMIT, True)]" .
  have order: "created_after_parents existing reset_statements"
    by (simp add: reset_statements_eq schema_defs)
  have run: "\<forall>conn. reset_tables conn = execute_all conn reset_statements"
    by (simp add: reset_tables_def)
  from run reset_tables_connect [of db_file] log order show ?thesis
    by (intro conjI)
qed


section \<open>The reporter (order_summary_report.py)\<close>

text \<open>
  The rows of a table whose column equals a value (the \<open>ON\<close> condition of a join), and
  for a left join the same with a single absent row when there is none.
\<close>

definition matches :: "table \<Rightarrow> string \<Rightarrow> sqlval \<Rightarrow> sqlval list list" where
  "matches t n v = filter (\<lambda>r. sql_eq (cell (tbl_def t) r n) v) (tbl_rows t)"

definition left_matches :: "table \<Rightarrow> string \<Rightarrow> sqlval \<Rightarrow> sqlval list option list" where
  "left_matches t n v = (case matches t n v of [] \<Rightarrow> [None] | ms \<Rightarrow> map Some ms)"

definition cell_of :: "table \<Rightarrow> sqlval list option \<Rightarrow> string \<Rightarrow> sqlval" where
  "cell_of t r n = (case r of None \<Rightarrow> SqlNull | Some r' \<Rightarrow> cell (tbl_def t) r' n)"

text \<open>
  The order in which \<open>ORDER BY\<close> puts values: \<open>NULL\<close> first, then numbers by value,
  then texts, compared character by character.
\<close>

fun sort_rank :: "sqlval \<Rightarrow> nat \<times> rat \<times> string" where
  "sort_rank SqlNull = (0, 0, [])"
| "sort_rank (SqlInteger i) = (1, of_int i, [])"
| "sort_rank (SqlReal x) = (1, x, [])"
| "sort_rank (SqlText s) = (2, 0, s)"

record tables =
  t_users :: table
  t_products :: table
  t_orders :: table
  t_reviews :: table
  t_payments :: table

text \<open>
  The rows that the joins make of one order, each paired with the order it comes from:
  \<open>u.name\<close>, \<open>pr.name\<close>, \<open>o.order_date\<close>, \<open>r.rating\<close> and \<open>pay.payment_status\<close>.
\<close>

definition join_order :: "tables \<Rightarrow> sqlval list \<Rightarrow> (sqlval list \<times> sqlval list) list" where
  "join_order T ord =
     concat (map (\<lambda>u.
     concat (map (\<lambda>pr.
     concat (map (\<lambda>r.
       map (\<lambda>pay.
         (ord, [cell (tbl_def (t_users T)) u ''name'',
               cell (tbl_def (t_products T)) pr ''name'',
               cell (tbl_def (t_orders T)) ord ''order_date'',
               cell_of (t_reviews T) r ''rating'',
               cell_of (t_payments T) pay ''payment_status'']))
         (left_matches (t_payments T) ''order_id'' (cell (tbl_def (t_orders T)) ord ''order_id'')))
       (left_matches (t_reviews T) ''order_id'' (cell (tbl_def (t_orders T)) ord ''order_id''))))
       (matches (t_products T) ''product_id'' (cell (tbl_def (t_orders T)) ord ''product_id''))))
       (matches (t_users T) ''user_id'' (cell (tbl_def (t_orders T)) ord ''user_id'')))"

definition order_key :: "tables \<Rightarrow> sqlval list \<Rightarrow> (nat \<times> rat \<times> string) \<times> (nat \<times> rat \<times> string)" where
  "order_key T ord =
     (sort_rank (cell (tbl_def (t_orders T)) ord ''order_date''),
      sort_rank (cell (tbl_def (t_orders T)) ord ''order_id''))"

text \<open>The rows of the joins, order after order of the \<open>orders\<close> table.\<close>

definition joined_rows :: "tables \<Rightarrow> (sqlval list \<times> sqlval list) list" where
  "joined_rows T = concat (map (join_order T) (tbl_rows (t_orders T)))"

text \<open>
  The joined rows in the order of \<open>ORDER BY o.order_date, o.order_id\<close>. Where two rows
  have the same key, SQL leaves their order open, and the order that SQLite returns
  depends on the plan it chooses for the joins. That choice is a parameter of the model:
  \<open>ties rows i\<close> is the rank that the engine gives the \<open>i\<close>-th of the joined rows
  \<open>rows\<close> among the rows of the same key. Every function is a possible engine.
\<close>

type_synonym tie_order = "(sqlval list \<times> sqlval list) list \<Rightarrow> nat \<Rightarrow> nat"

definition summary_pairs :: "tie_order \<Rightarrow> tables \<Rightarrow> (sqlval list \<times> sqlval list) list" where
  "summary_pairs ties T =
     map snd
       (sort_key (\<lambda>(i, ord, res). (order_key T ord, ties (joined_rows T) i))
          (enumerate 0 (joined_rows T)))"

text \<open>
  The tables and columns that the query names must exist, or preparing the statement
  fails.
\<close>

definition query_table :: "database \<Rightarrow> string \<Rightarrow> string list \<Rightarrow> error + table" where
  "query_table db n cols =
     (case map_of db n of
        None \<Rightarrow> Inl OperationalError
      | Some t \<Rightarrow>
          if list_all (\<lambda>c. c \<in> set (map col_name (td_columns (tbl_def t)))) cols then Inr t
          else Inl OperationalError)"

definition query_tables :: "database \<Rightarrow> error + tables" where
  "query_tables db =
     and_then (query_table db ''orders'' [''order_id'', ''user_id'', ''product_id'', ''order_date''])
       (\<lambda>orders.
     and_then (query_table db ''users'' [''user_id'', ''name'']) (\<lambda>users.
     and_then (query_table db ''products'' [''product_id'', ''name'']) (\<lambda>products.
     and_then (query_table db ''reviews'' [''order_id'', ''rating'']) (\<lambda>reviews.
     and_then (query_table db ''payments'' [''order_id'', ''payment_status'']) (\<lambda>payments.
     Inr \<lparr>t_users = users, t_products = products, t_orders = orders, t_reviews = reviews,
          t_payments = payments\<rparr>)))))"

definition QUERY :: "tie_order \<Rightarrow> database \<Rightarrow> error + sqlval list list" where
  "QUERY ties db = and_then (query_tables db) (\<lambda>T. Inr (map snd (summary_pairs ties T)))"

definition fetch_order_summary :: "tie_order \<Rightarrow> database option \<Rightarrow> error + sqlval list list" where
  "fetch_order_summary ties db_file =
     (case db_file of
        None \<Rightarrow> Inl (FileNotFoundError ''Database not found'')
      | Some db \<Rightarrow> QUERY ties db)"

text \<open>The Python value that the cursor returns for an SQLite value.\<close>

fun python_value :: "sqlval \<Rightarrow> pyval" where
  "python_value SqlNull = PNone"
| "python_value (SqlInteger i) = PInt i"
| "python_value (SqlReal x) = PFloat x"
| "python_value (SqlText s) = PStr s"

definition headers :: "string list" where
  "headers = [''user_name'', ''product_name'', ''order_date'', ''review_rating'', ''payment_status'']"

text \<open>\<open>write_summary\<close>: the text of the report file.\<close>

definition write_summary :: "sqlval list list \<Rightarrow> error + string" where
  "write_summary rows =
     and_then (writerow (map PStr headers)) (\<lambda>header.
     and_then (traverse (\<lambda>r. writerow (map python_value r)) rows) (\<lambda>lines.
     Inr (header @ concat lines)))"

text \<open>\<open>main\<close>: the report file and the number of records printed.\<close>

definition reporter_main :: "tie_order \<Rightarrow> database option \<Rightarrow> error + string \<times> nat" where
  "reporter_main ties db_file =
     and_then (fetch_order_summary ties db_file) (\<lambda>rows.
     and_then (write_summary rows) (\<lambda>text. Inr (text, length rows)))"

section \<open>Properties of the reporter\<close>

subsection \<open>A small data directory and the database loaded from it\<close>

text \<open>
  One user, one product, one order, two reviews of that order and one payment: files that
  the loader accepts, since \<open>reviews.order_id\<close> carries no uniqueness constraint.
\<close>

definition example_data :: files where
  "example_data =
     [''users.csv'' \<mapsto>
        ''user_id,name,email,join_date,loyalty_tier'' @ [CR, LF]
        @ ''U001,Ava Patel,ava.patel@shopperhub.com,2024-01-01,Bronze'' @ [CR, LF],
      ''products.csv'' \<mapsto>
        ''product_id,name,category,price,in_stock'' @ [CR, LF]
        @ ''P001,Smartwatch,Wearables,149.99,53'' @ [CR, LF],
      ''orders.csv'' \<mapsto>
        ''order_id,user_id,product_id,quantity,order_date,status,order_total'' @ [CR, LF]
        @ ''O001,U001,P001,2,2024-02-01,Processing,299.98'' @ [CR, LF],
      ''reviews.csv'' \<mapsto>
        ''review_id,order_id,rating,comment,review_date'' @ [CR, LF]
        @ ''R001,O001,5,Great value for the price.,2024-03-01'' @ [CR, LF]
        @ ''R002,O001,3,Met my expectations.,2024-03-02'' @ [CR, LF],
      ''payments.csv'' \<mapsto>
        ''payment_id,order_id,amount,method,payment_status'' @ [CR, LF]
        @ ''PM001,O001,299.98,Credit Card,Completed'' @ [CR, LF]]"

lemmas loader_defs =
  loader_main_def reset_tables_connect reset_database_def load_csv_def csv_read_defs
  FIELD_CONVERTERS_def parse_defs float_defs insert_rows_def insert_row_def getitem_def
  commit_def rollback_def schema_defs violates_not_null_def violates_primary_key_def
  violates_foreign_key_def parent_missing_def has_row_with_def cell_def

definition example_database :: database where
  "example_database =
     [(''users'', \<lparr>tbl_def = users_schema, tbl_rows =
         [[SqlText ''U001'', SqlText ''Ava Patel'', SqlText ''ava.patel@shopperhub.com'',
           SqlText ''2024-01-01'', SqlText ''Bronze'']]\<rparr>),
      (''products'', \<lparr>tbl_def = products_schema, tbl_rows =
         [[SqlText ''P001'', SqlText ''Smartwatch'', SqlText ''Wearables'',
           SqlReal (659662996200489 / 4398046511104), SqlInteger 53]]\<rparr>),
      (''orders'', \<lparr>tbl_def = orders_schema, tbl_rows =
         [[SqlText ''O001'', SqlText ''U001'', SqlText ''P001'', SqlInteger 2,
           SqlText ''2024-02-01'', SqlText ''Processing'',
           SqlReal (659662996200489 / 2199023255552)]]\<rparr>),
      (''reviews'', \<lparr>tbl_def = reviews_schema, tbl_rows =
         [[SqlText ''R001'', SqlText ''O001'', SqlInteger 5,
           SqlText ''Great value for the price.'', SqlText ''2024-03-01''],
          [SqlText ''R002'', SqlText ''O001'', SqlInteger 3,
           SqlText ''Met my expectations.'', SqlText ''2024-03-02'']]\<rparr>),
      (''payments'', \<lparr>tbl_def = payments_schema, tbl_rows =
         [[SqlText ''PM001'', SqlText ''O001'', SqlReal (659662996200489 / 2199023255552),
           SqlText ''Credit Card'', SqlText ''Completed'']]\<rparr>)]"

lemma example_loaded:
  "loader_main (Some example_data) None =
     (None, Some example_database,
      [(1, ''users''), (1, ''products''), (1, ''orders''), (2, ''reviews''), (1, ''payments'')])"
  by (simp add: example_data_def example_database_def loader_defs)

lemmas query_defs =
  fetch_order_summary_def QUERY_def query_tables_def query_table_def summary_pairs_def
  joined_rows_def join_order_def matches_def left_matches_def cell_of_def order_key_def cell_def
  schema_defs

subsection \<open>Ordering and header of the report\<close>

text \<open>
  Ascending order of two SQLite values, written out case by case: \<open>NULL\<close> comes first,
  then the numbers by their value, then the texts in the order of their characters.
\<close>

fun sql_le :: "sqlval \<Rightarrow> sqlval \<Rightarrow> bool" where
  "sql_le SqlNull b = True"
| "sql_le a SqlNull = False"
| "sql_le (SqlText s) (SqlText t) = (s \<le> t)"
| "sql_le (SqlText s) b = False"
| "sql_le a (SqlText t) = True"
| "sql_le (SqlInteger i) (SqlInteger j) = (i \<le> j)"
| "sql_le (SqlInteger i) (SqlReal y) = (of_int i \<le> y)"
| "sql_le (SqlReal x) (SqlInteger j) = (x \<le> of_int j)"
| "sql_le (SqlReal x) (SqlReal y) = (x \<le> y)"

text \<open>
  Order \<open>a\<close> may stand before order \<open>b\<close> in a list that ascends by \<open>order_date\<close> and
  then by \<open>order_id\<close>: its date is earlier, or the dates are equal and its id is not
  later.
\<close>

definition date_then_id :: "table_def \<Rightarrow> sqlval list \<Rightarrow> sqlval list \<Rightarrow> bool" where
  "date_then_id td a b =
     (sql_le (cell td a ''order_date'') (cell td b ''order_date'') \<and>
      (sql_le (cell td b ''order_date'') (cell td a ''order_date'') \<longrightarrow>
       sql_le (cell td a ''order_id'') (cell td b ''order_id'')))"

lemma writerow_headers:
  "writerow (map PStr headers) =
     Inr (''user_name,product_name,order_date,review_rating,payment_status'' @ [CR, LF])"
  by (simp add: writerow_def headers_def csv_field_def needs_quotes_def CR_def LF_def DQUOTE_def)

lemma sort_rank_le: "sort_rank a \<le> sort_rank b \<longleftrightarrow> sql_le a b"
  by (cases a; cases b) (auto simp: less_eq_prod_def)

lemma order_key_le:
  "order_key T a \<le> order_key T b \<longleftrightarrow> date_then_id (tbl_def (t_orders T)) a b"
  unfolding order_key_def date_then_id_def sort_rank_le [symmetric]
  by auto

lemma join_order_member:
  "(ord', res) \<in> set (join_order T ord) \<Longrightarrow>
     ord' = ord \<and> res ! 2 = cell (tbl_def (t_orders T)) ord ''order_date''"
  by (auto simp: join_order_def)

lemma joined_rows_member:
  assumes "(ord, res) \<in> set (joined_rows T)"
  shows "ord \<in> set (tbl_rows (t_orders T)) \<and>
    res ! 2 = cell (tbl_def (t_orders T)) ord ''order_date''"
proof -
  from assms obtain ord' where "ord' \<in> set (tbl_rows (t_orders T))"
    and "(ord, res) \<in> set (join_order T ord')"
    by (auto simp: joined_rows_def)
  then show ?thesis
    using join_order_member by blast
qed

text \<open>Sorting neither loses nor repeats a row, whatever the engine does with ties.\<close>

lemma count_list_insort_key:
  "count_list (map g (insort_key k x ys)) p = count_list (map g (x # ys)) p"
  by (induction ys) auto

lemma count_list_sort_key:
  "count_list (map g (sort_key k xs)) p = count_list (map g xs) p"
  by (induction xs) (simp_all add: sort_key_def count_list_insort_key)

lemma summary_pairs_count:
  "count_list (summary_pairs ties T) p = count_list (joined_rows T) p"
  by (simp add: summary_pairs_def count_list_sort_key map_snd_enumerate)

lemma summary_pairs_length: "length (summary_pairs ties T) = length (joined_rows T)"
  by (simp add: summary_pairs_def)

lemma summary_pairs_set: "set (summary_pairs ties T) = set (joined_rows T)"
proof -
  have "set (summary_pairs ties T) = snd ` set (enumerate 0 (joined_rows T))"
    by (simp add: summary_pairs_def)
  also have "\<dots> = set (joined_rows T)"
    by (simp only: set_map [symmetric] map_snd_enumerate)
  finally show ?thesis .
qed

lemma summary_pairs_sorted:
  "sorted_wrt (\<lambda>a b. date_then_id (tbl_def (t_orders T)) (fst a) (fst b)) (summary_pairs ties T)"
proof -
  define K where "K = (\<lambda>(i :: nat, ord :: sqlval list, res :: sqlval list).
    (order_key T ord, ties (joined_rows T) i))"
  define S where "S = sort_key K (enumerate 0 (joined_rows T))"
  have "sorted (map K S)"
    by (simp add: S_def sorted_sort_key)
  then have "sorted_wrt (\<lambda>x y. K x \<le> K y) S"
    by (simp add: sorted_map)
  then have "sorted_wrt (\<lambda>x y. order_key T (fst (snd x)) \<le> order_key T (fst (snd y))) S"
    by (rule sorted_wrt_mono_rel [rotated]) (auto simp: K_def)
  then have "sorted_wrt (\<lambda>a b. order_key T (fst a) \<le> order_key T (fst b)) (map snd S)"
    by (simp add: sorted_wrt_map)
  then show ?thesis
    by (simp add: summary_pairs_def S_def K_def order_key_le)
qed

text \<open>
  Claim C7. When the reporter succeeds, the rows it fetches are the joined rows, each as
  often as the joins make it, in a list that ascends by the \<open>order_date\<close> and then the
  \<open>order_id\<close> of the order each row comes from (the third field of a row is that
  order's date); the report file is the line of the five column names followed by the
  lines of these rows, and the number printed is the number of rows. This holds whatever
  the engine does with rows of the same date and id.
\<close>

theorem report_sorted_with_header:
  assumes "reporter_main ties (Some db) = Inr (report, n)"
  shows "\<exists>T pairs lines. query_tables db = Inr T \<and>
    fetch_order_summary ties (Some db) = Inr (map snd pairs) \<and>
    (\<forall>p. count_list pairs p = count_list (joined_rows T) p) \<and>
    n = length pairs \<and>
    sorted_wrt (\<lambda>a b. date_then_id (tbl_def (t_orders T)) (fst a) (fst b)) pairs \<and>
    (\<forall>(ord, res)\<in>set pairs.
       ord \<in> set (tbl_rows (t_orders T)) \<and>
       res ! 2 = cell (tbl_def (t_orders T)) ord ''order_date'') \<and>
    traverse (\<lambda>r. writerow (map python_value r)) (map snd pairs) = Inr lines \<and>
    report = ''user_name,product_name,order_date,review_rating,payment_status'' @ [CR, LF]
      @ concat lines"
proof -
  from assms obtain rows where rows: "fetch_order_summary ties (Some db) = Inr rows"
    and written: "write_summary rows = Inr report" and n: "n = length rows"
    by (auto simp: reporter_main_def and_then_eq_Inr)
  from rows obtain T where T: "query_tables db = Inr T"
    and pairs: "rows = map snd (summary_pairs ties T)"
    by (auto simp: fetch_order_summary_def QUERY_def and_then_eq_Inr)
  from written obtain lines where
    lines: "traverse (\<lambda>r. writerow (map python_value r)) rows = Inr lines"
    and report: "report =
      ''user_name,product_name,order_date,review_rating,payment_status'' @ [CR, LF]
       @ concat lines"
    by (auto simp: write_summary_def writerow_headers and_then_eq_Inr)
  have member: "\<forall>(ord, res)\<in>set (summary_pairs ties T).
       ord \<in> set (tbl_rows (t_orders T)) \<and>
       res ! 2 = cell (tbl_def (t_orders T)) ord ''order_date''"
    using joined_rows_member [of _ _ T] by (auto simp: summary_pairs_set)
  show ?thesis
    using T rows pairs n lines report member summary_pairs_sorted [of T ties]
    by (intro exI [of _ T] exI [of _ "summary_pairs ties T"] exI [of _ lines])
      (simp add: summary_pairs_count)
qed

text \<open>
  A database of three orders, stored neither by date nor by id; the second has a review,
  the third no payment. Their keys differ, so the report is the same for every engine.
\<close>

definition report_database :: database where
  "report_database =
     [(''users'', \<lparr>tbl_def = users_schema, tbl_rows =
         [[SqlText ''U001'', SqlText ''Ava Patel'', SqlText ''ava.patel@shopperhub.com'',
           SqlText ''2024-01-01'', SqlText ''Bronze'']]\<rparr>),
      (''products'', \<lparr>tbl_def = products_schema, tbl_rows =
         [[SqlText ''P001'', SqlText ''Smartwatch'', SqlText ''Wearables'',
           SqlReal (659662996200489 / 4398046511104), SqlInteger 53]]\<rparr>),
      (''orders'', \<lparr>tbl_def = orders_schema, tbl_rows =
         [[SqlText ''O003'', SqlText ''U001'', SqlText ''P001'', SqlInteger 2,
           SqlText ''2024-02-01'', SqlText ''Shipped'',
           SqlReal (659662996200489 / 2199023255552)],
          [SqlText ''O001'', SqlText ''U001'', SqlText ''P001'', SqlInteger 2,
           SqlText ''2024-02-03'', SqlText ''Processing'',
           SqlReal (659662996200489 / 2199023255552)],
          [SqlText ''O002'', SqlText ''U001'', SqlText ''P001'', SqlInteger 2,
           SqlText ''2024-02-01'', SqlText ''Delivered'',
           SqlReal (659662996200489 / 2199023255552)]]\<rparr>),
      (''reviews'', \<lparr>tbl_def = reviews_schema, tbl_rows =
         [[SqlText ''R001'', SqlText ''O002'', SqlInteger 4,
           SqlText ''Met my expectations.'', SqlText ''2024-03-02'']]\<rparr>),
      (''payments'', \<lparr>tbl_def = payments_schema, tbl_rows =
         [[SqlText ''PM001'', SqlText ''O001'', SqlReal (659662996200489 / 2199023255552),
           SqlText ''Credit Card'', SqlText ''Completed''],
          [SqlText ''PM002'', SqlText ''O002'', SqlReal (659662996200489 / 2199023255552),
           SqlText ''PayPal'', SqlText ''Pending'']]\<rparr>)]"

lemma report_example:
  "reporter_main ties (Some report_database) =
     Inr (''user_name,product_name,order_date,review_rating,payment_status'' @ [CR, LF]
          @ ''Ava Patel,Smartwatch,2024-02-01,4,Pending'' @ [CR, LF]
          @ ''Ava Patel,Smartwatch,2024-02-01,,'' @ [CR, LF]
          @ ''Ava Patel,Smartwatch,2024-02-03,,Completed'' @ [CR, LF], 3)"
  by (simp add: reporter_main_def write_summary_def writerow_def csv_field_def needs_quotes_def
      headers_def str_int_def digits_eval digit_char_def CR_def LF_def DQUOTE_def
      report_database_def query_defs enumerate_eq_zip upt_rec less_eq_prod_def)

theorem report_sorted_with_header_witness:
  "\<forall>ties.
     reporter_main ties (Some report_database) =
       Inr (''user_name,product_name,order_date,review_rating,payment_status'' @ [CR, LF]
            @ ''Ava Patel,Smartwatch,2024-02-01,4,Pending'' @ [CR, LF]
            @ ''Ava Patel,Smartwatch,2024-02-01,,'' @ [CR, LF]
            @ ''Ava Patel,Smartwatch,2024-02-03,,Completed'' @ [CR, LF], 3) \<and>
     (\<exists>T pairs lines. query_tables report_database = Inr T \<and>
        fetch_order_summary ties (Some report_database) = Inr (map snd pairs) \<and>
        (\<forall>p. count_list pairs p = count_list (joined_rows T) p) \<and>
        3 = length pairs \<and>
        sorted_wrt (\<lambda>a b. date_then_id (tbl_def (t_orders T)) (fst a) (fst b)) pairs \<and>
        (\<forall>(ord, res)\<in>set pairs.
           ord \<in> set (tbl_rows (t_orders T)) \<and>
           res ! 2 = cell (tbl_def (t_orders T)) ord ''order_date'') \<and>
        traverse (\<lambda>r. writerow (map python_value r)) (map snd pairs) = Inr lines \<and>
        ''user_name,product_name,order_date,review_rating,payment_status'' @ [CR, LF]
          @ ''Ava Patel,Smartwatch,2024-02-01,4,Pending'' @ [CR, LF]
          @ ''Ava Patel,Smartwatch,2024-02-01,,'' @ [CR, LF]
          @ ''Ava Patel,Smartwatch,2024-02-03,,Completed'' @ [CR, LF] =
        ''user_name,product_name,order_date,review_rating,payment_status'' @ [CR, LF]
          @ concat lines)"
proof (intro allI conjI)
  fix ties
  show "reporter_main ties (Some report_database) =
       Inr (''user_name,product_name,order_date,review_rating,payment_status'' @ [CR, LF]
            @ ''Ava Patel,Smartwatch,2024-02-01,4,Pending'' @ [CR, LF]
            @ ''Ava Patel,Smartwatch,2024-02-01,,'' @ [CR, LF]
            @ ''Ava Patel,Smartwatch,2024-02-03,,Completed'' @ [CR, LF], 3)"
    by (rule report_example)
  show "\<exists>T pairs lines. query_tables report_database = Inr T \<and>
        fetch_order_summary ties (Some report_database) = Inr (map snd pairs) \<and>
        (\<forall>p. count_list pairs p = count_list (joined_rows T) p) \<and>
        3 = length pairs \<and>
        sorted_wrt (\<lambda>a b. date_then_id (tbl_def (t_orders T)) (fst a) (fst b)) pairs \<and>
        (\<forall>(ord, res)\<in>set pairs.
           ord \<in> set (tbl_rows (t_orders T)) \<and>
           res ! 2 = cell (tbl_def (t_orders T)) ord ''order_date'') \<and>
        traverse (\<lambda>r. writerow (map python_value r)) (map snd pairs) = Inr lines \<and>
        ''user_name,product_name,order_date,review_rating,payment_status'' @ [CR, LF]
          @ ''Ava Patel,Smartwatch,2024-02-01,4,Pending'' @ [CR, LF]
          @ ''Ava Patel,Smartwatch,2024-02-01,,'' @ [CR, LF]
          @ ''Ava Patel,Smartwatch,2024-02-03,,Completed'' @ [CR, LF] =
        ''user_name,product_name,order_date,review_rating,payment_status'' @ [CR, LF]
          @ concat lines"
    using report_sorted_with_header [OF report_example] .
qed

subsection \<open>Completeness of the joins\<close>

lemma fetch_order_summary_rows:
  assumes "query_tables db = Inr T"
  shows "\<exists>rows. fetch_order_summary ties (Some db) = Inr rows \<and>
    length rows = length (joined_rows T) \<and> set rows = snd ` set (joined_rows T)"
  using assms
  by (simp add: fetch_order_summary_def QUERY_def summary_pairs_length summary_pairs_set)

text \<open>
  The claim that the report has as many rows as the orders table fails on the database
  loaded from the small data directory: one order, reviewed twice, gives two rows,
  whatever the engine does with ties.
\<close>

theorem row_count_counterexample:
  "loader_main (Some example_data) None =
     (None, Some example_database,
      [(1, ''users''), (1, ''products''), (1, ''orders''), (2, ''reviews''), (1, ''payments'')]) \<and>
   map_option (\<lambda>t. length (tbl_rows t)) (map_of example_database ''orders'') = Some 1 \<and>
   (\<forall>ties. \<exists>rows. fetch_order_summary ties (Some example_database) = Inr rows \<and>
      length rows = 2 \<and>
      set rows =
        {[SqlText ''Ava Patel'', SqlText ''Smartwatch'', SqlText ''2024-02-01'', SqlInteger 5,
          SqlText ''Completed''],
         [SqlText ''Ava Patel'', SqlText ''Smartwatch'', SqlText ''2024-02-01'', SqlInteger 3,
          SqlText ''Completed'']})"
proof -
  have "map_option (\<lambda>t. length (tbl_rows t)) (map_of example_database ''orders'') = Some 1"
    by (simp add: example_database_def)
  moreover obtain T where T: "query_tables example_database = Inr T"
    and joined: "map snd (joined_rows T) =
       [[SqlText ''Ava Patel'', SqlText ''Smartwatch'', SqlText ''2024-02-01'', SqlInteger 5,
          SqlText ''Completed''],
         [SqlText ''Ava Patel'', SqlText ''Smartwatch'', SqlText ''2024-02-01'', SqlInteger 3,
          SqlText ''Completed'']]"
    by (simp add: example_database_def query_defs)
  have "\<exists>rows. fetch_order_summary ties (Some example_database) = Inr rows \<and>
      length rows = 2 \<and>
      set rows =
        {[SqlText ''Ava Patel'', SqlText ''Smartwatch'', SqlText ''2024-02-01'', SqlInteger 5,
          SqlText ''Completed''],
         [SqlText ''Ava Patel'', SqlText ''Smartwatch'', SqlText ''2024-02-01'', SqlInteger 3,
          SqlText ''Completed'']}" for ties
  proof -
    from fetch_order_summary_rows [OF T, of ties] obtain rows where
      "fetch_order_summary ties (Some example_database) = Inr rows"
      and "length rows = length (map snd (joined_rows T))"
      and "set rows = set (map snd (joined_rows T))"
      by auto
    then show ?thesis
      unfolding joined by auto
  qed
  ultimately show ?thesis
    using example_loaded by (intro conjI allI)
qed

text \<open>
  What the loader's checks guarantee of the database it commits. A row enters a table
  only through \<open>insert_row\<close>, with foreign keys enforced; so the keys of users and
  products stay unique and every order keeps a user and a product.
\<close>

lemma has_row_with_matches: "has_row_with t n v \<longleftrightarrow> matches t n v \<noteq> []"
  by (auto simp: has_row_with_def matches_def list_ex_iff filter_empty_conv)

lemma sql_eq_euclid: "sql_eq a v \<Longrightarrow> sql_eq b v \<Longrightarrow> sql_eq b a"
  by (cases a; cases v; cases b) auto

lemma matches_append_row:
  "matches (t\<lparr>tbl_rows := tbl_rows t @ [r]\<rparr>) n v =
     matches t n v @ (if sql_eq (cell (tbl_def t) r n) v then [r] else [])"
  by (simp add: matches_def)

lemma unique_after_insert:
  assumes "\<forall>v. length (matches t n v) \<le> 1" and "\<not> has_row_with t n (cell (tbl_def t) r n)"
  shows "length (matches (t\<lparr>tbl_rows := tbl_rows t @ [r]\<rparr>) n v) \<le> 1"
proof (cases "sql_eq (cell (tbl_def t) r n) v")
  case True
  have "matches t n v = []"
  proof (rule ccontr)
    assume "matches t n v \<noteq> []"
    then obtain r' where "r' \<in> set (tbl_rows t)" and "sql_eq (cell (tbl_def t) r' n) v"
      by (auto simp: matches_def filter_empty_conv)
    with True have "sql_eq (cell (tbl_def t) r' n) (cell (tbl_def t) r n)"
      using sql_eq_euclid by blast
    with \<open>r' \<in> set (tbl_rows t)\<close> have "has_row_with t n (cell (tbl_def t) r n)"
      by (auto simp: has_row_with_def list_ex_iff)
    with assms(2) show False
      by simp
  qed
  with True show ?thesis
    by (simp add: matches_append_row)
next
  case False
  with assms(1) show ?thesis
    by (simp add: matches_append_row)
qed

lemma insert_row_Inr:
  assumes "insert_row tname cols c params = Inr c'"
  shows "\<exists>t r. map_of (current c) tname = Some t \<and> \<not> violates_not_null (tbl_def t) r \<and>
    \<not> violates_primary_key t r \<and>
    (foreign_keys c \<longrightarrow> \<not> violates_foreign_key (current c) (tbl_def t) r) \<and>
    c' = c\<lparr>in_transaction := True,
           current := map (\<lambda>(n, t'). if n = tname then (n, t'\<lparr>tbl_rows := tbl_rows t' @ [r]\<rparr>)
                                   else (n, t')) (current c)\<rparr>"
  using assms
  by (auto simp: insert_row_def Let_def and_then_eq_Inr split: option.splits if_splits)

lemma map_of_updated:
  "map_of (map (\<lambda>(n, t'). if n = tname then (n, f t') else (n, t')) db) n =
     (if n = tname then map_option f (map_of db n) else map_of db n)"
  by (induction db) auto


text \<open>
  The five tables exist with their schemas, no two users share a \<open>user_id\<close>, no two
  products a \<open>product_id\<close>, and every order has its user and its product.
\<close>

definition loaded_invariant :: "database \<Rightarrow> bool" where
  "loaded_invariant db =
     (\<exists>U P O' Rv Pay.
        map_of db ''users'' = Some U \<and> map_of db ''products'' = Some P \<and>
        map_of db ''orders'' = Some O' \<and> map_of db ''reviews'' = Some Rv \<and>
        map_of db ''payments'' = Some Pay \<and>
        tbl_def U = users_schema \<and> tbl_def P = products_schema \<and> tbl_def O' = orders_schema \<and>
        tbl_def Rv = reviews_schema \<and> tbl_def Pay = payments_schema \<and>
        (\<forall>v. length (matches U ''user_id'' v) \<le> 1) \<and>
        (\<forall>v. length (matches P ''product_id'' v) \<le> 1) \<and>
        (\<forall>ord\<in>set (tbl_rows O').
           has_row_with U ''user_id'' (cell orders_schema ord ''user_id'') \<and>
           has_row_with P ''product_id'' (cell orders_schema ord ''product_id'')))"

lemma users_pk_check:
  "tbl_def U = users_schema \<Longrightarrow> \<not> violates_primary_key U r \<Longrightarrow>
     \<not> has_row_with U ''user_id'' (cell (tbl_def U) r ''user_id'')"
  by (simp add: violates_primary_key_def users_schema_def primary_key_def not_null_def)

lemma products_pk_check:
  "tbl_def P = products_schema \<Longrightarrow> \<not> violates_primary_key P r \<Longrightarrow>
     \<not> has_row_with P ''product_id'' (cell (tbl_def P) r ''product_id'')"
  by (simp add: violates_primary_key_def products_schema_def primary_key_def not_null_def)

lemma orders_fk_check:
  assumes "\<not> violates_foreign_key db orders_schema r" and "\<not> violates_not_null orders_schema r"
    and "map_of db ''users'' = Some U" and "map_of db ''products'' = Some P"
  shows "has_row_with U ''user_id'' (cell orders_schema r ''user_id'') \<and>
    has_row_with P ''product_id'' (cell orders_schema r ''product_id'')"
proof -
  have fks: "td_foreign_keys orders_schema =
      [\<lparr>fk_column = ''user_id'', fk_table = ''users'', fk_ref_column = ''user_id''\<rparr>,
       \<lparr>fk_column = ''product_id'', fk_table = ''products'', fk_ref_column = ''product_id''\<rparr>]"
    by (simp add: orders_schema_def)
  have nn: "list_ex (\<lambda>cd. col_not_null cd \<and> cell orders_schema r (col_name cd) = SqlNull)
      (td_columns orders_schema) \<longleftrightarrow>
    cell orders_schema r ''user_id'' = SqlNull \<or> cell orders_schema r ''product_id'' = SqlNull \<or>
    cell orders_schema r ''quantity'' = SqlNull \<or> cell orders_schema r ''order_date'' = SqlNull \<or>
    cell orders_schema r ''status'' = SqlNull \<or> cell orders_schema r ''order_total'' = SqlNull"
    by (simp add: orders_schema_def [THEN arg_cong, of td_columns] primary_key_def not_null_def)
  from assms(2) nn have "cell orders_schema r ''user_id'' \<noteq> SqlNull"
    "cell orders_schema r ''product_id'' \<noteq> SqlNull"
    by (auto simp: violates_not_null_def)
  with assms(1,3,4) show ?thesis
    by (simp add: violates_foreign_key_def fks)
qed

lemma has_row_with_append:
  "has_row_with t n v \<Longrightarrow> has_row_with (t\<lparr>tbl_rows := tbl_rows t @ [r]\<rparr>) n v"
  by (simp add: has_row_with_def)


lemma insert_row_invariant:
  assumes ins: "insert_row tname cols c params = Inr c'"
    and fk: "foreign_keys c"
    and inv: "loaded_invariant (current c)"
  shows "loaded_invariant (current c') \<and> foreign_keys c' \<and> committed c' = committed c"
proof -
  from insert_row_Inr [OF ins] fk obtain t r where
    t: "map_of (current c) tname = Some t"
    and nn: "\<not> violates_not_null (tbl_def t) r"
    and pk: "\<not> violates_primary_key t r"
    and fkr: "\<not> violates_foreign_key (current c) (tbl_def t) r"
    and c': "c' = c\<lparr>in_transaction := True,
           current := map (\<lambda>(n, t'). if n = tname then (n, t'\<lparr>tbl_rows := tbl_rows t' @ [r]\<rparr>)
                                   else (n, t')) (current c)\<rparr>"
    by blast
  from inv obtain U P O' Rv Pay where
    tabs: "map_of (current c) ''users'' = Some U" "map_of (current c) ''products'' = Some P"
      "map_of (current c) ''orders'' = Some O'" "map_of (current c) ''reviews'' = Some Rv"
      "map_of (current c) ''payments'' = Some Pay"
    and defs: "tbl_def U = users_schema" "tbl_def P = products_schema" "tbl_def O' = orders_schema"
      "tbl_def Rv = reviews_schema" "tbl_def Pay = payments_schema"
    and uU: "\<forall>v. length (matches U ''user_id'' v) \<le> 1"
    and uP: "\<forall>v. length (matches P ''product_id'' v) \<le> 1"
    and refs: "\<forall>ord\<in>set (tbl_rows O').
           has_row_with U ''user_id'' (cell orders_schema ord ''user_id'') \<and>
           has_row_with P ''product_id'' (cell orders_schema ord ''product_id'')"
    unfolding loaded_invariant_def by blast
  let ?add = "\<lambda>t'. t'\<lparr>tbl_rows := tbl_rows t' @ [r]\<rparr>"
  have look: "map_of (current c') n =
      (if n = tname then map_option ?add (map_of (current c) n) else map_of (current c) n)" for n
    by (simp add: c' map_of_updated)
  have "loaded_invariant (current c')"
  proof (cases "tname = ''users''")
    case True
    with t tabs have [simp]: "t = U"
      by simp
    from pk defs have "\<not> has_row_with U ''user_id'' (cell (tbl_def U) r ''user_id'')"
      using users_pk_check [of U r] by simp
    with uU have "\<forall>v. length (matches (?add U) ''user_id'' v) \<le> 1"
      using unique_after_insert by blast
    moreover from refs have "\<forall>ord\<in>set (tbl_rows O').
           has_row_with (?add U) ''user_id'' (cell orders_schema ord ''user_id'') \<and>
           has_row_with P ''product_id'' (cell orders_schema ord ''product_id'')"
      by (simp add: has_row_with_append)
    ultimately show ?thesis
      unfolding loaded_invariant_def
      apply -
      apply (rule exI [of _ "?add U"],
          rule exI [of _ P],
          rule exI [of _ O'],
          rule exI [of _ Rv],
          rule exI [of _ Pay])
      using tabs defs uP True by (simp add: look)
  next
    case notU: False
    show ?thesis
    proof (cases "tname = ''products''")
      case True
      with t tabs have [simp]: "t = P"
        by simp
      from pk defs have "\<not> has_row_with P ''product_id'' (cell (tbl_def P) r ''product_id'')"
        using products_pk_check [of P r] by simp
      with uP have "\<forall>v. length (matches (?add P) ''product_id'' v) \<le> 1"
        using unique_after_insert by blast
      moreover from refs have "\<forall>ord\<in>set (tbl_rows O').
           has_row_with U ''user_id'' (cell orders_schema ord ''user_id'') \<and>
           has_row_with (?add P) ''product_id'' (cell orders_schema ord ''product_id'')"
        by (simp add: has_row_with_append)
      ultimately show ?thesis
        unfolding loaded_invariant_def
        apply -
        apply (rule exI [of _ U],
            rule exI [of _ "?add P"],
            rule exI [of _ O'],
            rule exI [of _ Rv],
            rule exI [of _ Pay])
        using tabs defs uU True by (simp add: look)
    next
      case notP: False
      show ?thesis
      proof (cases "tname = ''orders''")
        case True
        with t tabs have [simp]: "t = O'"
          by simp
        from fkr nn defs tabs have
          "has_row_with U ''user_id'' (cell orders_schema r ''user_id'') \<and>
           has_row_with P ''product_id'' (cell orders_schema r ''product_id'')"
          using orders_fk_check [of "current c" r U P] by simp
        with refs have "\<forall>ord\<in>set (tbl_rows (?add O')).
           has_row_with U ''user_id'' (cell orders_schema ord ''user_id'') \<and>
           has_row_with P ''product_id'' (cell orders_schema ord ''product_id'')"
          by simp
        then show ?thesis
          unfolding loaded_invariant_def
          apply -
          apply (rule exI [of _ U],
              rule exI [of _ P],
              rule exI [of _ "?add O'"],
              rule exI [of _ Rv],
              rule exI [of _ Pay])
          using tabs defs uU uP True by (simp add: look)
      next
        case notO: False
        show ?thesis
        proof (cases "tname = ''reviews''")
          case True
          with t tabs have "t = Rv"
            by simp
          show ?thesis
            unfolding loaded_invariant_def
            apply (rule exI [of _ U], rule exI [of _ P], rule exI [of _ O'],
                rule exI [of _ "?add Rv"], rule exI [of _ Pay])
            using tabs defs uU uP refs True by (simp add: look)
        next
          case notR: False
          show ?thesis
          proof (cases "tname = ''payments''")
            case True
            show ?thesis
              unfolding loaded_invariant_def
              apply (rule exI [of _ U], rule exI [of _ P], rule exI [of _ O'],
                  rule exI [of _ Rv], rule exI [of _ "?add Pay"])
              using tabs defs uU uP refs True by (simp add: look)
          next
            case False
            show ?thesis
              unfolding loaded_invariant_def
              apply (rule exI [of _ U], rule exI [of _ P], rule exI [of _ O'],
                  rule exI [of _ Rv], rule exI [of _ Pay])
              using tabs defs uU uP refs notU notP notO notR False by (simp add: look)
          qed
        qed
      qed
    qed
  qed
  then show ?thesis
    using fk by (simp add: c')
qed


lemma map_of_filter_out:
  "n \<in> S \<Longrightarrow> map_of (filter (\<lambda>nt. fst nt \<notin> S) db) n = None"
  by (induction db) auto

lemma reset_database_invariant: "loaded_invariant (reset_database db)"
proof -
  have out: "map_of (filter (\<lambda>nt. fst nt \<notin> set (map cfg_name TABLE_CONFIG)) db) n = None"
    if "n \<in> set (map cfg_name TABLE_CONFIG)" for n
    using that by (rule map_of_filter_out)
  have names: "''users'' \<in> set (map cfg_name TABLE_CONFIG)"
    "''products'' \<in> set (map cfg_name TABLE_CONFIG)"
    "''orders'' \<in> set (map cfg_name TABLE_CONFIG)"
    "''reviews'' \<in> set (map cfg_name TABLE_CONFIG)"
    "''payments'' \<in> set (map cfg_name TABLE_CONFIG)"
    by (simp_all add: TABLE_CONFIG_def)
  have five: "map (\<lambda>cfg. (cfg_name cfg, \<lparr>tbl_def = cfg_schema cfg, tbl_rows = []\<rparr>)) TABLE_CONFIG =
    [(''users'', \<lparr>tbl_def = users_schema, tbl_rows = []\<rparr>),
     (''products'', \<lparr>tbl_def = products_schema, tbl_rows = []\<rparr>),
     (''orders'', \<lparr>tbl_def = orders_schema, tbl_rows = []\<rparr>),
     (''reviews'', \<lparr>tbl_def = reviews_schema, tbl_rows = []\<rparr>),
     (''payments'', \<lparr>tbl_def = payments_schema, tbl_rows = []\<rparr>)]"
    by (simp add: TABLE_CONFIG_def)
  have look: "map_of (reset_database db) n =
    map_of [(''users'', \<lparr>tbl_def = users_schema, tbl_rows = []\<rparr>),
     (''products'', \<lparr>tbl_def = products_schema, tbl_rows = []\<rparr>),
     (''orders'', \<lparr>tbl_def = orders_schema, tbl_rows = []\<rparr>),
     (''reviews'', \<lparr>tbl_def = reviews_schema, tbl_rows = []\<rparr>),
     (''payments'', \<lparr>tbl_def = payments_schema, tbl_rows = []\<rparr>)] n"
    if "n \<in> set (map cfg_name TABLE_CONFIG)" for n
    unfolding reset_database_def map_of_append five map_add_def out [OF that] by simp
  show ?thesis
    unfolding loaded_invariant_def look [OF names(1)] look [OF names(2)] look [OF names(3)]
      look [OF names(4)] look [OF names(5)]
    apply (rule exI [of _ "\<lparr>tbl_def = users_schema, tbl_rows = []\<rparr>"],
        rule exI [of _ "\<lparr>tbl_def = products_schema, tbl_rows = []\<rparr>"],
        rule exI [of _ "\<lparr>tbl_def = orders_schema, tbl_rows = []\<rparr>"],
        rule exI [of _ "\<lparr>tbl_def = reviews_schema, tbl_rows = []\<rparr>"],
        rule exI [of _ "\<lparr>tbl_def = payments_schema, tbl_rows = []\<rparr>"])
    by (simp add: matches_def)
qed

lemma executemany_invariant:
  assumes "executemany tname cols c params = Inr c'"
    and "foreign_keys c" and "loaded_invariant (current c)"
  shows "loaded_invariant (current c') \<and> foreign_keys c'"
  using assms
proof (induction params arbitrary: c)
  case Nil
  then show ?case by simp
next
  case (Cons p params)
  from Cons.prems(1) obtain c1 where first: "insert_row tname cols c p = Inr c1"
    and rest: "executemany tname cols c1 params = Inr c'"
    by (auto simp: and_then_eq_Inr)
  from insert_row_invariant [OF first Cons.prems(2,3)]
  have "loaded_invariant (current c1)" and "foreign_keys c1"
    by simp_all
  with rest show ?case
    using Cons.IH by blast
qed

lemma insert_rows_invariant:
  assumes "insert_rows c tname cols rows = Inr c'"
    and "foreign_keys c" and "loaded_invariant (current c)"
  shows "loaded_invariant (current c') \<and> foreign_keys c'"
proof -
  from assms(1) obtain params c1 where "executemany tname cols c params = Inr c1"
    and c': "c' = commit c1"
    by (auto simp: insert_rows_def and_then_eq_Inr)
  with assms(2,3) have "loaded_invariant (current c1) \<and> foreign_keys c1"
    using executemany_invariant by blast
  then show ?thesis
    by (simp add: c' commit_def)
qed

lemma load_tables_invariant:
  assumes "load_tables c data configs = (None, c', printed)"
    and "foreign_keys c" and "loaded_invariant (current c)"
  shows "loaded_invariant (committed c')"
  using assms
proof (induction configs arbitrary: c printed)
  case Nil
  then show ?case by (auto simp: commit_def)
next
  case (Cons config configs)
  from Cons.prems(1) obtain rows c1 printed1 where
    "insert_rows c (cfg_name config) (cfg_columns config) rows = Inr c1"
    and rest: "load_tables c1 data configs = (None, c', printed1)"
    by (auto split: sum.splits prod.splits)
  with Cons.prems(2,3) have "loaded_invariant (current c1) \<and> foreign_keys c1"
    using insert_rows_invariant by blast
  with rest show ?case
    using Cons.IH by blast
qed

lemma loader_main_invariant:
  assumes "loader_main (Some data) db_file = (None, Some db, printed)"
  shows "loaded_invariant db"
proof -
  let ?c = "\<lparr>foreign_keys = True, in_transaction = False,
       committed = reset_database (case db_file of None \<Rightarrow> [] | Some db \<Rightarrow> db),
       current = reset_database (case db_file of None \<Rightarrow> [] | Some db \<Rightarrow> db)\<rparr>"
  from assms obtain c' where "load_tables ?c data TABLE_CONFIG = (None, c', printed)"
    and "db = committed c'"
    by (auto simp: loader_main_def reset_tables_connect split: prod.splits)
  moreover have "foreign_keys ?c" "loaded_invariant (current ?c)"
    by (simp_all add: reset_database_invariant)
  ultimately show ?thesis
    using load_tables_invariant by blast
qed


lemma loaded_query_tables:
  assumes "loaded_invariant db"
  shows "\<exists>T. query_tables db = Inr T \<and>
    tbl_def (t_orders T) = orders_schema \<and>
    (\<forall>v. length (matches (t_users T) ''user_id'' v) \<le> 1) \<and>
    (\<forall>v. length (matches (t_products T) ''product_id'' v) \<le> 1) \<and>
    (\<forall>ord\<in>set (tbl_rows (t_orders T)).
       has_row_with (t_users T) ''user_id'' (cell orders_schema ord ''user_id'') \<and>
       has_row_with (t_products T) ''product_id'' (cell orders_schema ord ''product_id''))"
proof -
  from assms obtain U P O' Rv Pay where
    tabs: "map_of db ''users'' = Some U" "map_of db ''products'' = Some P"
      "map_of db ''orders'' = Some O'" "map_of db ''reviews'' = Some Rv"
      "map_of db ''payments'' = Some Pay"
    and defs: "tbl_def U = users_schema" "tbl_def P = products_schema" "tbl_def O' = orders_schema"
      "tbl_def Rv = reviews_schema" "tbl_def Pay = payments_schema"
    and rest: "\<forall>v. length (matches U ''user_id'' v) \<le> 1"
      "\<forall>v. length (matches P ''product_id'' v) \<le> 1"
      "\<forall>ord\<in>set (tbl_rows O').
           has_row_with U ''user_id'' (cell orders_schema ord ''user_id'') \<and>
           has_row_with P ''product_id'' (cell orders_schema ord ''product_id'')"
    unfolding loaded_invariant_def by blast
  from tabs defs have "query_tables db =
    Inr \<lparr>t_users = U, t_products = P, t_orders = O', t_reviews = Rv, t_payments = Pay\<rparr>"
    by (simp add: query_tables_def query_table_def schema_defs)
  with defs rest show ?thesis
    by simp
qed

lemma query_tables_named:
  assumes "query_tables db = Inr T"
  shows "map_of db ''orders'' = Some (t_orders T) \<and> map_of db ''reviews'' = Some (t_reviews T) \<and>
    map_of db ''payments'' = Some (t_payments T)"
  using assms
  by (auto simp: query_tables_def query_table_def and_then_eq_Inr split: option.splits if_splits)

lemma length_left_matches: "length (left_matches t n v) = max 1 (length (matches t n v))"
  by (cases "matches t n v") (simp_all add: left_matches_def)

lemma length_concat_map_map:
  "length (concat (map (\<lambda>x. map (f x) ys) xs)) = length xs * length ys"
  by (induction xs) simp_all

lemma singleton_list: "length xs \<le> 1 \<Longrightarrow> xs \<noteq> [] \<Longrightarrow> \<exists>x. xs = [x]"
  by (cases xs) auto

lemma join_order_length:
  assumes "length (matches (t_users T) ''user_id'' (cell (tbl_def (t_orders T)) ord ''user_id'')) \<le> 1"
    and "has_row_with (t_users T) ''user_id'' (cell (tbl_def (t_orders T)) ord ''user_id'')"
    and "length (matches (t_products T) ''product_id''
           (cell (tbl_def (t_orders T)) ord ''product_id'')) \<le> 1"
    and "has_row_with (t_products T) ''product_id'' (cell (tbl_def (t_orders T)) ord ''product_id'')"
  shows "length (join_order T ord) =
    max 1 (length (matches (t_reviews T) ''order_id'' (cell (tbl_def (t_orders T)) ord ''order_id'')))
    * max 1 (length (matches (t_payments T) ''order_id''
        (cell (tbl_def (t_orders T)) ord ''order_id'')))"
proof -
  from assms(1,2) obtain u where
    u: "matches (t_users T) ''user_id'' (cell (tbl_def (t_orders T)) ord ''user_id'') = [u]"
    using singleton_list has_row_with_matches by blast
  from assms(3,4) obtain pr where
    pr: "matches (t_products T) ''product_id''
      (cell (tbl_def (t_orders T)) ord ''product_id'') = [pr]"
    using singleton_list has_row_with_matches by blast
  show ?thesis
    by (simp add: join_order_def u pr length_concat_map_map length_left_matches)
qed

lemma sum_list_at_least:
  "\<forall>x\<in>set xs. (1 :: nat) \<le> f x \<Longrightarrow> length xs \<le> sum_list (map f xs)"
  by (induction xs) auto

lemma sum_list_ones:
  "\<forall>x\<in>set xs. f x = (1 :: nat) \<Longrightarrow> sum_list (map f xs) = length xs"
  by (induction xs) auto

lemma length_joined_rows:
  "length (joined_rows T) = sum_list (map (\<lambda>ord. length (join_order T ord)) (tbl_rows (t_orders T)))"
  by (simp add: joined_rows_def length_concat comp_def)

lemma joined_rows_keep:
  assumes "ord \<in> set (tbl_rows (t_orders T))" and "1 \<le> length (join_order T ord)"
  shows "\<exists>res. (ord, res) \<in> set (joined_rows T)"
proof -
  from assms(2) obtain p where p: "p \<in> set (join_order T ord)"
    by (cases "join_order T ord") auto
  then have "fst p = ord"
    using join_order_member [of "fst p" "snd p" T ord] by simp
  with p assms(1) have "(ord, snd p) \<in> set (joined_rows T)"
    by (auto simp: joined_rows_def intro!: bexI [of _ ord])
  then show ?thesis
    by blast
qed

lemma joined_rows_null_rating:
  assumes "(ord, res) \<in> set (joined_rows T)"
    and "matches (t_reviews T) ''order_id'' (cell (tbl_def (t_orders T)) ord ''order_id'') = []"
  shows "res ! 3 = SqlNull"
proof -
  from assms(1) obtain ord' where "(ord, res) \<in> set (join_order T ord')"
    by (auto simp: joined_rows_def)
  moreover from this have "ord' = ord"
    using join_order_member by blast
  ultimately show ?thesis
    using assms(2) by (auto simp: join_order_def left_matches_def cell_of_def)
qed


text \<open>
  Claim C4, amended. For any database that the loader has loaded, the joins never drop an
  order: every row of the orders table has a row in the reporter's result, so the result
  has at least as many rows as the orders table, and exactly as many when no order has
  more than one review or more than one payment; and every result row of an order with no
  matching review has a null rating field. This holds whatever the engine does with ties.
\<close>

theorem joins_keep_every_order:
  assumes "loader_main (Some data) db_file = (None, Some db, printed)"
  shows "\<exists>T pairs. query_tables db = Inr T \<and>
    map_of db ''orders'' = Some (t_orders T) \<and> map_of db ''reviews'' = Some (t_reviews T) \<and>
    map_of db ''payments'' = Some (t_payments T) \<and>
    fetch_order_summary ties (Some db) = Inr (map snd pairs) \<and>
    (\<forall>p. count_list pairs p = count_list (joined_rows T) p) \<and>
    (\<forall>ord\<in>set (tbl_rows (t_orders T)). \<exists>res. (ord, res) \<in> set pairs) \<and>
    length (tbl_rows (t_orders T)) \<le> length pairs \<and>
    ((\<forall>ord\<in>set (tbl_rows (t_orders T)).
        length (matches (t_reviews T) ''order_id''
          (cell (tbl_def (t_orders T)) ord ''order_id'')) \<le> 1 \<and>
        length (matches (t_payments T) ''order_id''
          (cell (tbl_def (t_orders T)) ord ''order_id'')) \<le> 1) \<longrightarrow>
     length pairs = length (tbl_rows (t_orders T))) \<and>
    (\<forall>(ord, res)\<in>set pairs.
       matches (t_reviews T) ''order_id'' (cell (tbl_def (t_orders T)) ord ''order_id'') = [] \<longrightarrow>
       res ! 3 = SqlNull)"
proof -
  from assms have "loaded_invariant db"
    by (rule loader_main_invariant)
  then obtain T where T: "query_tables db = Inr T"
    and orders: "tbl_def (t_orders T) = orders_schema"
    and users: "\<forall>v. length (matches (t_users T) ''user_id'' v) \<le> 1"
    and products: "\<forall>v. length (matches (t_products T) ''product_id'' v) \<le> 1"
    and refs: "\<forall>ord\<in>set (tbl_rows (t_orders T)).
       has_row_with (t_users T) ''user_id'' (cell orders_schema ord ''user_id'') \<and>
       has_row_with (t_products T) ''product_id'' (cell orders_schema ord ''product_id'')"
    using loaded_query_tables by blast
  let ?pairs = "summary_pairs ties T"
  let ?n = "\<lambda>t ord. length (matches t ''order_id'' (cell (tbl_def (t_orders T)) ord ''order_id''))"
  have len: "length (join_order T ord) =
      max 1 (?n (t_reviews T) ord) * max 1 (?n (t_payments T) ord)"
    if "ord \<in> set (tbl_rows (t_orders T))" for ord
    using that users products refs by (intro join_order_length) (simp_all add: orders)
  have one: "1 \<le> length (join_order T ord)" if "ord \<in> set (tbl_rows (t_orders T))" for ord
    by (simp add: len [OF that])
  have fetched: "fetch_order_summary ties (Some db) = Inr (map snd ?pairs)"
    by (simp add: fetch_order_summary_def QUERY_def T)
  have kept: "\<forall>ord\<in>set (tbl_rows (t_orders T)). \<exists>res. (ord, res) \<in> set ?pairs"
    using joined_rows_keep one by (simp add: summary_pairs_set)
  have at_least: "length (tbl_rows (t_orders T)) \<le> length ?pairs"
    unfolding summary_pairs_length length_joined_rows
    using one by (intro sum_list_at_least) simp
  have exact: "length ?pairs = length (tbl_rows (t_orders T))"
    if "\<forall>ord\<in>set (tbl_rows (t_orders T)).
          ?n (t_reviews T) ord \<le> 1 \<and> ?n (t_payments T) ord \<le> 1"
  proof -
    have "\<forall>ord\<in>set (tbl_rows (t_orders T)). length (join_order T ord) = 1"
    proof
      fix ord
      assume mem: "ord \<in> set (tbl_rows (t_orders T))"
      with that have "?n (t_reviews T) ord \<le> 1" and "?n (t_payments T) ord \<le> 1"
        by blast+
      then have "max 1 (?n (t_reviews T) ord) = 1" and "max 1 (?n (t_payments T) ord) = 1"
        by arith+
      then show "length (join_order T ord) = 1"
        by (simp only: len [OF mem] mult_1)
    qed
    then show ?thesis
      unfolding summary_pairs_length length_joined_rows by (rule sum_list_ones)
  qed
  have null: "\<forall>(ord, res)\<in>set ?pairs.
       matches (t_reviews T) ''order_id'' (cell (tbl_def (t_orders T)) ord ''order_id'') = [] \<longrightarrow>
       res ! 3 = SqlNull"
    using joined_rows_null_rating by (auto simp: summary_pairs_set)
  from T fetched kept at_least exact null query_tables_named [OF T] show ?thesis
    by (intro exI [of _ T] exI [of _ ?pairs]) (simp add: summary_pairs_count)
qed

text \<open>
  A data directory from which the loader makes the database of three orders above: no
  order has two reviews or two payments, and two orders have no review.
\<close>

definition report_data :: files where
  "report_data =
     [''users.csv'' \<mapsto>
        ''user_id,name,email,join_date,loyalty_tier'' @ [CR, LF]
        @ ''U001,Ava Patel,ava.patel@shopperhub.com,2024-01-01,Bronze'' @ [CR, LF],
      ''products.csv'' \<mapsto>
        ''product_id,name,category,price,in_stock'' @ [CR, LF]
        @ ''P001,Smartwatch,Wearables,149.99,53'' @ [CR, LF],
      ''orders.csv'' \<mapsto>
        ''order_id,user_id,product_id,quantity,order_date,status,order_total'' @ [CR, LF]
        @ ''O003,U001,P001,2,2024-02-01,Shipped,299.98'' @ [CR, LF]
        @ ''O001,U001,P001,2,2024-02-03,Processing,299.98'' @ [CR, LF]
        @ ''O002,U001,P001,2,2024-02-01,Delivered,299.98'' @ [CR, LF],
      ''reviews.csv'' \<mapsto>
        ''review_id,order_id,rating,comment,review_date'' @ [CR, LF]
        @ ''R001,O002,4,Met my expectations.,2024-03-02'' @ [CR, LF],
      ''payments.csv'' \<mapsto>
        ''payment_id,order_id,amount,method,payment_status'' @ [CR, LF]
        @ ''PM001,O001,299.98,Credit Card,Completed'' @ [CR, LF]
        @ ''PM002,O002,299.98,PayPal,Pending'' @ [CR, LF]]"

lemma report_loaded:
  "loader_main (Some report_data) None =
     (None, Some report_database,
      [(1, ''users''), (1, ''products''), (3, ''orders''), (1, ''reviews''), (2, ''payments'')])"
  by (simp add: report_data_def report_database_def loader_defs)

lemma report_fetched:
  "fetch_order_summary ties (Some report_database) =
     Inr [[SqlText ''Ava Patel'', SqlText ''Smartwatch'', SqlText ''2024-02-01'', SqlInteger 4,
           SqlText ''Pending''],
          [SqlText ''Ava Patel'', SqlText ''Smartwatch'', SqlText ''2024-02-01'', SqlNull,
           SqlNull],
          [SqlText ''Ava Patel'', SqlText ''Smartwatch'', SqlText ''2024-02-03'', SqlNull,
           SqlText ''Completed'']]"
  by (simp add: report_database_def query_defs enumerate_eq_zip upt_rec)

theorem joins_keep_every_order_witness:
  "loader_main (Some report_data) None =
     (None, Some report_database,
      [(1, ''users''), (1, ''products''), (3, ''orders''), (1, ''reviews''), (2, ''payments'')]) \<and>
   (\<forall>ties.
      fetch_order_summary ties (Some report_database) =
       Inr [[SqlText ''Ava Patel'', SqlText ''Smartwatch'', SqlText ''2024-02-01'', SqlInteger 4,
             SqlText ''Pending''],
            [SqlText ''Ava Patel'', SqlText ''Smartwatch'', SqlText ''2024-02-01'', SqlNull,
             SqlNull],
            [SqlText ''Ava Patel'', SqlText ''Smartwatch'', SqlText ''2024-02-03'', SqlNull,
             SqlText ''Completed'']]) \<and>
   (\<forall>ties. \<exists>T pairs. query_tables report_database = Inr T \<and>
    map_of report_database ''orders'' = Some (t_orders T) \<and> map_of report_database ''reviews'' = Some (t_reviews T) \<and>
    map_of report_database ''payments'' = Some (t_payments T) \<and>
    fetch_order_summary ties (Some report_database) = Inr (map snd pairs) \<and>
    (\<forall>p. count_list pairs p = count_list (joined_rows T) p) \<and>
    (\<forall>ord\<in>set (tbl_rows (t_orders T)). \<exists>res. (ord, res) \<in> set pairs) \<and>
    length (tbl_rows (t_orders T)) \<le> length pairs \<and>
    ((\<forall>ord\<in>set (tbl_rows (t_orders T)).
        length (matches (t_reviews T) ''order_id''
          (cell (tbl_def (t_orders T)) ord ''order_id'')) \<le> 1 \<and>
        length (matches (t_payments T) ''order_id''
          (cell (tbl_def (t_orders T)) ord ''order_id'')) \<le> 1) \<longrightarrow>
     length pairs = length (tbl_rows (t_orders T))) \<and>
    (\<forall>(ord, res)\<in>set pairs.
       matches (t_reviews T) ''order_id'' (cell (tbl_def (t_orders T)) ord ''order_id'') = [] \<longrightarrow>
       res ! 3 = SqlNull))"
  using report_loaded report_fetched joins_keep_every_order [OF report_loaded]
  by (intro conjI allI)

end
